theory Spec2Isabelle
  imports Complex_Main "HOL-Library.AList" "HOL-Library.Sublist"
begin

section \<open>Restaurant recommender: the scoring and selection engine\<close>

text \<open>
  A shallow embedding of \<^verbatim>\<open>restaurant_recommender.py\<close> (class
  \<^verbatim>\<open>RestaurantRecommender\<close>) and of the test-location loading loop of
  \<^verbatim>\<open>simple_recommender.py\<close>.

  Conventions of the embedding:
  \<^item> Python floats are modelled as real numbers: \<open>calculate_vendor_score\<close> computes in
    exact arithmetic. Where a statement depends on the rounding of the doubles, it is made
    about \<open>calculate_vendor_score_rounded\<close>, the same computation with every operation
    rounded. NaN and infinities are outside both models.
  \<^item> An exception is a value \<open>Inl e\<close> of a sum type; a function that can raise returns
    \<open>py_error + 'a\<close>.
  \<^item> A row produced by \<^verbatim>\<open>csv.DictReader\<close> is a map from column names to cells; a cell
    is a string, or \<^verbatim>\<open>None\<close> when the row is shorter than the header.
  \<^item> The dictionary \<^verbatim>\<open>self.vendors\<close> is an association list in insertion order
    (the order a Python dict iterates in); assignment to a key is \<open>AList.update\<close>,
    which replaces in place or appends.
\<close>

subsection \<open>Python values, errors and the builtins \<^verbatim>\<open>int\<close> and \<^verbatim>\<open>float\<close>\<close>

datatype py_error = KeyError | ValueError | TypeError

datatype cell = PyNone | Str string

type_synonym row = "string \<rightharpoonup> cell"

definition is_digit :: "char \<Rightarrow> bool" where
  "is_digit c = (48 \<le> (of_char c :: nat) \<and> (of_char c :: nat) \<le> 57)"

definition is_space :: "char \<Rightarrow> bool" where
  "is_space c = ((of_char c :: nat) = 32 \<or> (9 \<le> (of_char c :: nat) \<and> (of_char c :: nat) \<le> 13))"

definition strip :: "string \<Rightarrow> string" where
  "strip s = rev (dropWhile is_space (rev (dropWhile is_space s)))"

definition digits_val :: "string \<Rightarrow> nat" where
  "digits_val s = foldl (\<lambda>a c. 10 * a + ((of_char c :: nat) - 48)) 0 s"

definition py_digits :: "string \<Rightarrow> nat option" where
  "py_digits s = (if s \<noteq> [] \<and> list_all is_digit s then Some (digits_val s) else None)"

text \<open>
  The builtin \<^verbatim>\<open>int(s)\<close> on a string, for ASCII decimal literals: surrounding white
  space, an optional sign, at least one digit. \<open>None\<close> stands for \<^verbatim>\<open>ValueError\<close>.
  The builtins accept more spellings (digit separators, exponents, \<^verbatim>\<open>inf\<close>,
  \<^verbatim>\<open>nan\<close>); only the worked examples evaluate the parsers, on decimal literals, the
  empty string and a word, and no general statement below depends on which strings parse.
\<close>

definition py_int :: "string \<Rightarrow> int option" where
  "py_int s =
     (case strip s of
        [] \<Rightarrow> None
      | c # r \<Rightarrow>
          if c = CHR ''-'' then map_option (\<lambda>n. - int n) (py_digits r)
          else if c = CHR ''+'' then map_option int (py_digits r)
          else map_option int (py_digits (c # r)))"

text \<open>
  The builtin \<^verbatim>\<open>float(s)\<close> on a string, for ASCII decimal literals without exponent:
  \<^verbatim>\<open>12\<close>, \<^verbatim>\<open>12.\<close>, \<^verbatim>\<open>.5\<close>, \<^verbatim>\<open>12.5\<close>, with optional sign and surrounding white space.
\<close>

definition py_ufloat :: "string \<Rightarrow> real option" where
  "py_ufloat t =
     (let ip = takeWhile (\<lambda>c. c \<noteq> CHR ''.'') t;
          fp = dropWhile (\<lambda>c. c \<noteq> CHR ''.'') t
      in case fp of
           [] \<Rightarrow> map_option real (py_digits ip)
         | _ # fd \<Rightarrow>
             if ip = [] \<and> fd = [] then None
             else if list_all is_digit ip \<and> list_all is_digit fd
             then Some (real (digits_val ip) + real (digits_val fd) / 10 ^ length fd)
             else None)"

definition py_float :: "string \<Rightarrow> real option" where
  "py_float s =
     (case strip s of
        [] \<Rightarrow> None
      | c # r \<Rightarrow>
          if c = CHR ''-'' then map_option uminus (py_ufloat r)
          else if c = CHR ''+'' then py_ufloat r
          else py_ufloat (c # r))"

text \<open>Sequencing of steps that can raise: the first exception ends the computation.\<close>

definition bind_err :: "'e + 'a \<Rightarrow> ('a \<Rightarrow> 'e + 'b) \<Rightarrow> 'e + 'b" where
  "bind_err m f = (case m of Inl e \<Rightarrow> Inl e | Inr x \<Rightarrow> f x)"

text \<open>\<^verbatim>\<open>row[k]\<close>: a missing column raises \<^verbatim>\<open>KeyError\<close>.\<close>

definition getitem :: "row \<Rightarrow> string \<Rightarrow> py_error + cell" where
  "getitem r k = (case r k of None \<Rightarrow> Inl KeyError | Some c \<Rightarrow> Inr c)"

text \<open>\<^verbatim>\<open>int(c)\<close> and \<^verbatim>\<open>float(c)\<close> on a cell: \<^verbatim>\<open>None\<close> raises \<^verbatim>\<open>TypeError\<close>.\<close>

definition int_of_cell :: "cell \<Rightarrow> py_error + int" where
  "int_of_cell c =
     (case c of
        PyNone \<Rightarrow> Inl TypeError
      | Str s \<Rightarrow> (case py_int s of None \<Rightarrow> Inl ValueError | Some i \<Rightarrow> Inr i))"

definition float_of_cell :: "cell \<Rightarrow> py_error + real" where
  "float_of_cell c =
     (case c of
        PyNone \<Rightarrow> Inl TypeError
      | Str s \<Rightarrow> (case py_float s of None \<Rightarrow> Inl ValueError | Some x \<Rightarrow> Inr x))"

text \<open>\<^verbatim>\<open>int(row[k])\<close> and \<^verbatim>\<open>float(row[k])\<close>.\<close>

definition int_field :: "row \<Rightarrow> string \<Rightarrow> py_error + int" where
  "int_field r k = bind_err (getitem r k) int_of_cell"

definition float_field :: "row \<Rightarrow> string \<Rightarrow> py_error + real" where
  "float_field r k = bind_err (getitem r k) float_of_cell"

text \<open>
  \<^verbatim>\<open>float(row.get(k, d) or d)\<close> and \<^verbatim>\<open>int(row.get(k, d) or d)\<close>: a missing column, a
  \<^verbatim>\<open>None\<close> cell and the empty string are falsy, so the default is used; every other
  string is parsed.
\<close>

definition float_default :: "row \<Rightarrow> string \<Rightarrow> real \<Rightarrow> py_error + real" where
  "float_default r k d =
     (case r k of
        None \<Rightarrow> Inr d
      | Some PyNone \<Rightarrow> Inr d
      | Some (Str s) \<Rightarrow> if s = [] then Inr d else float_of_cell (Str s))"

definition int_default :: "row \<Rightarrow> string \<Rightarrow> int \<Rightarrow> py_error + int" where
  "int_default r k d =
     (case r k of
        None \<Rightarrow> Inr d
      | Some PyNone \<Rightarrow> Inr d
      | Some (Str s) \<Rightarrow> if s = [] then Inr d else int_of_cell (Str s))"

subsection \<open>Great-circle distance\<close>

definition radians :: "real \<Rightarrow> real" where
  "radians x = x * pi / 180"

text \<open>The quantity \<^verbatim>\<open>a\<close> of \<^verbatim>\<open>haversine_distance\<close>, on arguments already in radians.\<close>

definition haversine_a :: "real \<Rightarrow> real \<Rightarrow> real \<Rightarrow> real \<Rightarrow> real" where
  "haversine_a lat1 lon1 lat2 lon2 =
     (let dlat = lat2 - lat1; dlon = lon2 - lon1
      in (sin (dlat / 2))\<^sup>2 + cos lat1 * cos lat2 * (sin (dlon / 2))\<^sup>2)"

definition haversine_distance :: "real \<Rightarrow> real \<Rightarrow> real \<Rightarrow> real \<Rightarrow> real" where
  "haversine_distance lat1 lon1 lat2 lon2 =
     (let a = haversine_a (radians lat1) (radians lon1) (radians lat2) (radians lon2);
          c = 2 * arcsin (sqrt a)
      in c * 6371)"

text \<open>
  \<^verbatim>\<open>math.sqrt\<close> raises \<^verbatim>\<open>ValueError\<close> on a negative argument and \<^verbatim>\<open>math.asin\<close> outside
  \<open>[-1, 1]\<close>. The checked version keeps both guards; \<open>haversine_checked_total\<close> below
  shows that neither fires in exact arithmetic.
\<close>

definition haversine_checked :: "real \<Rightarrow> real \<Rightarrow> real \<Rightarrow> real \<Rightarrow> py_error + real" where
  "haversine_checked lat1 lon1 lat2 lon2 =
     (let a = haversine_a (radians lat1) (radians lon1) (radians lat2) (radians lon2)
      in if a < 0 then Inl ValueError
         else if sqrt a < - 1 \<or> 1 < sqrt a then Inl ValueError
         else Inr (2 * arcsin (sqrt a) * 6371))"

subsection \<open>The recommender's state and \<^verbatim>\<open>load_data\<close>\<close>

record vendor =
  lat :: real
  lon :: real
  category :: cell
  rating :: real
  delivery_charge :: real
  serving_distance :: real
  is_open :: int
  discount :: real

text \<open>
  \<^verbatim>\<open>self.vendors\<close>, \<^verbatim>\<open>self.customer_orders\<close> (a \<^verbatim>\<open>defaultdict(set)\<close>) and
  \<^verbatim>\<open>self.customer_preferences\<close> (a \<^verbatim>\<open>defaultdict(Counter)\<close>). A counter is only ever
  incremented by one, so its values are natural numbers.
\<close>

record state =
  vendors :: "(int \<times> vendor) list"
  customer_orders :: "cell \<rightharpoonup> int set"
  customer_preferences :: "cell \<rightharpoonup> (cell \<rightharpoonup> nat)"

definition init :: state where
  "init = \<lparr>vendors = [], customer_orders = Map.empty, customer_preferences = Map.empty\<rparr>"

text \<open>One vendor row: the fields are read in the order of the source.\<close>

definition parse_vendor :: "row \<Rightarrow> py_error + (int \<times> vendor)" where
  "parse_vendor r =
     bind_err (int_field r ''id'') (\<lambda>vendor_id.
     bind_err (float_field r ''latitude'') (\<lambda>la.
     bind_err (float_field r ''longitude'') (\<lambda>lo.
     bind_err (getitem r ''vendor_category_en'') (\<lambda>cat.
     bind_err (float_default r ''vendor_rating'' 0) (\<lambda>ra.
     bind_err (float_default r ''delivery_charge'' 0) (\<lambda>dc.
     bind_err (float_default r ''serving_distance'' 10) (\<lambda>sd.
     bind_err (int_default r ''is_open'' 1) (\<lambda>op.
     bind_err (float_default r ''discount_percentage'' 0) (\<lambda>di.
       Inr (vendor_id,
            \<lparr>lat = la, lon = lo, category = cat, rating = ra, delivery_charge = dc,
             serving_distance = sd, is_open = op, discount = di\<rparr>))))))))))"

fun load_vendors :: "row list \<Rightarrow> (int \<times> vendor) list \<Rightarrow> py_error + (int \<times> vendor) list" where
  "load_vendors [] vs = Inr vs"
| "load_vendors (r # rs) vs =
     bind_err (parse_vendor r)
       (\<lambda>(vendor_id, v). load_vendors rs (AList.update vendor_id v vs))"

text \<open>\<^verbatim>\<open>self.customer_orders[customer_id].add(vendor_id)\<close> on a \<^verbatim>\<open>defaultdict(set)\<close>.\<close>

definition add_order :: "(cell \<rightharpoonup> int set) \<Rightarrow> cell \<Rightarrow> int \<Rightarrow> (cell \<rightharpoonup> int set)" where
  "add_order co customer vendor_id =
     co(customer \<mapsto> insert vendor_id (case co customer of None \<Rightarrow> {} | Some S \<Rightarrow> S))"

text \<open>\<^verbatim>\<open>self.customer_preferences[customer_id][category] += 1\<close> on a \<^verbatim>\<open>defaultdict(Counter)\<close>.\<close>

definition bump_category ::
  "(cell \<rightharpoonup> (cell \<rightharpoonup> nat)) \<Rightarrow> cell \<Rightarrow> cell \<Rightarrow> (cell \<rightharpoonup> (cell \<rightharpoonup> nat))" where
  "bump_category cp customer cat =
     (let cnt = (case cp customer of None \<Rightarrow> Map.empty | Some c \<Rightarrow> c)
      in cp(customer \<mapsto> cnt(cat \<mapsto> (case cnt cat of None \<Rightarrow> 0 | Some n \<Rightarrow> n) + 1)))"

definition load_order :: "state \<Rightarrow> row \<Rightarrow> py_error + state" where
  "load_order st r =
     bind_err (getitem r ''customer_id'') (\<lambda>customer.
     bind_err (int_field r ''vendor_id'') (\<lambda>vendor_id.
       let st1 = st\<lparr>customer_orders := add_order (customer_orders st) customer vendor_id\<rparr>
       in case map_of (vendors st1) vendor_id of
            None \<Rightarrow> Inr st1
          | Some v \<Rightarrow>
              Inr (st1\<lparr>customer_preferences :=
                         bump_category (customer_preferences st1) customer (category v)\<rparr>)))"

fun load_orders :: "row list \<Rightarrow> state \<Rightarrow> py_error + state" where
  "load_orders [] st = Inr st"
| "load_orders (r # rs) st =
     bind_err (load_order st r) (load_orders rs)"

text \<open>\<^verbatim>\<open>load_data\<close>: the vendor file, then the order file.\<close>

definition load_data :: "state \<Rightarrow> row list \<Rightarrow> row list \<Rightarrow> py_error + state" where
  "load_data st vendor_rows order_rows =
     bind_err (load_vendors vendor_rows (vendors st))
       (\<lambda>vs. load_orders order_rows (st\<lparr>vendors := vs\<rparr>))"

subsection \<open>\<^verbatim>\<open>calculate_vendor_score\<close>\<close>

definition calculate_vendor_score :: "state \<Rightarrow> cell \<Rightarrow> real \<Rightarrow> real \<Rightarrow> int \<Rightarrow> real" where
  "calculate_vendor_score st customer customer_lat customer_lon vendor_id =
     (case map_of (vendors st) vendor_id of
        None \<Rightarrow> 0
      | Some v \<Rightarrow>
          let distance = haversine_distance customer_lat customer_lon (lat v) (lon v)
          in if distance > serving_distance v then 0
             else
               let s0 = (0 :: real);
                   s1 = (if distance \<le> 1 then s0 + 20
                         else if distance \<le> 3 then s0 + 15
                         else if distance \<le> 5 then s0 + 10
                         else if distance \<le> 8 then s0 + 5
                         else s0 + 1);
                   s2 = s1 + rating v * 3;
                   s3 = s2 - delivery_charge v * 2;
                   s4 = s3 + discount v * 0.5;
                   s5 = (if is_open v = 0 then s4 * 0.1 else s4);
                   s6 = (if vendor_id \<in> (case customer_orders st customer of
                                             None \<Rightarrow> {} | Some S \<Rightarrow> S)
                         then s5 + 50 else s5);
                   s7 = (case customer_preferences st customer of
                           None \<Rightarrow> s6
                         | Some cnt \<Rightarrow>
                             s6 + real (case cnt (category v) of None \<Rightarrow> 0 | Some n \<Rightarrow> n) * 2)
               in max 0 s7)"

subsection \<open>The score in double arithmetic\<close>

text \<open>
  \<^verbatim>\<open>calculate_vendor_score\<close> above computes in exact arithmetic. The program computes
  in IEEE doubles, where every operation rounds its exact result. Where a statement
  depends on that, the same computation is written with the rounding made explicit, as a
  function \<open>fl\<close> applied after each operation.

  \<open>double\<close> is rounding to the nearest number with a 53-bit significand, ties to the
  even significand (the default mode of the hardware). The exponent is unbounded: overflow
  to infinity and the reduced precision of subnormal numbers are not modelled.
\<close>

definition rhe :: "real \<Rightarrow> int" where
  "rhe y =
     (let f = \<lfloor>y\<rfloor>
      in if y - of_int f < 1 / 2 then f
         else if y - of_int f > 1 / 2 then f + 1
         else if even f then f else f + 1)"

definition expo :: "real \<Rightarrow> int" where
  "expo x = \<lfloor>log 2 \<bar>x\<bar>\<rfloor>"

definition double_abs :: "real \<Rightarrow> real" where
  "double_abs x = of_int (rhe (x / 2 powr of_int (expo x - 52))) * 2 powr of_int (expo x - 52)"

definition double :: "real \<Rightarrow> real" where
  "double x = (if x = 0 then 0 else if x < 0 then - double_abs (- x) else double_abs x)"






subsection \<open>\<^verbatim>\<open>generate_recommendations\<close>\<close>

record recommendation =
  customer_id :: cell
  location_number :: int
  vendor_id :: int
  score :: real

text \<open>
  The inner loop over \<^verbatim>\<open>self.vendors\<close>: the vendors whose score is positive, with
  their scores, in catalog order.
\<close>

fun score_vendors :: "state \<Rightarrow> cell \<Rightarrow> real \<Rightarrow> real \<Rightarrow> int list \<Rightarrow> (int \<times> real) list" where
  "score_vendors st customer customer_lat customer_lon [] = []"
| "score_vendors st customer customer_lat customer_lon (vid # vids) =
     (let s = calculate_vendor_score st customer customer_lat customer_lon vid
      in if s > 0
         then (vid, s) # score_vendors st customer customer_lat customer_lon vids
         else score_vendors st customer customer_lat customer_lon vids)"

text \<open>
  \<^verbatim>\<open>vendor_scores.sort(key=lambda x: x[1], reverse=True)\<close>: Python's sort is stable
  also with \<^verbatim>\<open>reverse=True\<close>, that is, a stable sort on the negated score.
\<close>

definition sort_scores :: "(int \<times> real) list \<Rightarrow> (int \<times> real) list" where
  "sort_scores vendor_scores = sort_key (\<lambda>x. - snd x) vendor_scores"

text \<open>\<^verbatim>\<open>max(10, vendor_scores[0][1] * 0.1) if vendor_scores else 10\<close>\<close>

definition min_score_of :: "(int \<times> real) list \<Rightarrow> real" where
  "min_score_of vendor_scores =
     (case vendor_scores of [] \<Rightarrow> 10 | x # _ \<Rightarrow> max 10 (snd x * 0.1))"

text \<open>
  \<^verbatim>\<open>[r for r in recommendations if r['customer_id'] == customer_id and
  r['location_number'] == location_num]\<close>
\<close>

definition group_of :: "recommendation list \<Rightarrow> cell \<Rightarrow> int \<Rightarrow> recommendation list" where
  "group_of recommendations customer location_num =
     filter (\<lambda>r. customer_id r = customer \<and> location_number r = location_num) recommendations"

text \<open>The selection loop: it appends to the list of all recommendations made so far.\<close>

fun emit_loop ::
  "cell \<Rightarrow> int \<Rightarrow> real \<Rightarrow> (int \<times> real) list \<Rightarrow> recommendation list \<Rightarrow> recommendation list" where
  "emit_loop customer location_num min_score [] recommendations = recommendations"
| "emit_loop customer location_num min_score (x # xs) recommendations =
     emit_loop customer location_num min_score xs
       (if snd x \<ge> min_score \<and> length (group_of recommendations customer location_num) < 10
        then recommendations @
               [\<lparr>customer_id = customer, location_number = location_num,
                 vendor_id = fst x, score = snd x\<rparr>]
        else recommendations)"

type_synonym location = "cell \<times> int \<times> real \<times> real"

definition parse_location :: "row \<Rightarrow> py_error + location" where
  "parse_location r =
     bind_err (getitem r ''customer_id'') (\<lambda>customer.
     bind_err (int_field r ''location_number'') (\<lambda>location_num.
     bind_err (float_field r ''latitude'') (\<lambda>customer_lat.
     bind_err (float_field r ''longitude'') (\<lambda>customer_lon.
       Inr (customer, location_num, customer_lat, customer_lon)))))"

text \<open>The scored vendors of one customer-location, as sorted by the source.\<close>

definition candidates :: "state \<Rightarrow> location \<Rightarrow> (int \<times> real) list" where
  "candidates st l =
     (case l of (customer, location_num, customer_lat, customer_lon) \<Rightarrow>
        sort_scores (score_vendors st customer customer_lat customer_lon (map fst (vendors st))))"

text \<open>The body of the loop over the rows of the test-location file, after parsing.\<close>

definition process_location :: "state \<Rightarrow> recommendation list \<Rightarrow> location \<Rightarrow> recommendation list" where
  "process_location st recommendations l =
     (let vendor_scores = candidates st l
      in emit_loop (fst l) (fst (snd l)) (min_score_of vendor_scores) vendor_scores
           recommendations)"

fun locations_loop ::
  "state \<Rightarrow> row list \<Rightarrow> recommendation list \<Rightarrow> py_error + recommendation list" where
  "locations_loop st [] recommendations = Inr recommendations"
| "locations_loop st (r # rs) recommendations =
     bind_err (parse_location r)
       (\<lambda>l. locations_loop st rs (process_location st recommendations l))"

text \<open>\<^verbatim>\<open>test_customers[row['customer_id']] = row\<close> for every row of the customer file.\<close>

fun load_test_customers :: "row list \<Rightarrow> (cell \<rightharpoonup> row) \<Rightarrow> py_error + (cell \<rightharpoonup> row)" where
  "load_test_customers [] tc = Inr tc"
| "load_test_customers (r # rs) tc =
     bind_err (getitem r ''customer_id'') (\<lambda>customer. load_test_customers rs (tc(customer \<mapsto> r)))"

definition generate_recommendations ::
  "state \<Rightarrow> row list \<Rightarrow> row list \<Rightarrow> py_error + recommendation list" where
  "generate_recommendations st customer_rows location_rows =
     bind_err (load_test_customers customer_rows Map.empty)
       (\<lambda>test_customers. locations_loop st location_rows [])"

text \<open>
  The records that processing one customer-location appends to the recommendations
  made so far.
\<close>

definition emitted :: "state \<Rightarrow> recommendation list \<Rightarrow> location \<Rightarrow> recommendation list" where
  "emitted st recommendations l =
     drop (length recommendations) (process_location st recommendations l)"

subsection \<open>The test-location loading loop of \<^verbatim>\<open>simple_recommender.py\<close>\<close>

text \<open>Truth value of a cell: \<^verbatim>\<open>None\<close> and the empty string are falsy.\<close>

definition truthy :: "cell \<Rightarrow> bool" where
  "truthy c = (case c of PyNone \<Rightarrow> False | Str s \<Rightarrow> s \<noteq> [])"

text \<open>
  The \<^verbatim>\<open>try\<close> block: \<^verbatim>\<open>ValueError\<close> and \<^verbatim>\<open>TypeError\<close> are caught and the row is
  skipped (\<open>Inr None\<close>); a \<^verbatim>\<open>KeyError\<close> is not caught.
\<close>

definition try_append :: "row \<Rightarrow> cell \<Rightarrow> cell \<Rightarrow> cell \<Rightarrow> py_error + location option" where
  "try_append r customer la lo =
     (case float_of_cell la of
        Inl e \<Rightarrow> Inr None
      | Inr customer_lat \<Rightarrow>
          (case float_of_cell lo of
             Inl e \<Rightarrow> Inr None
           | Inr customer_lon \<Rightarrow>
               (case int_field r ''location_number'' of
                  Inl e \<Rightarrow> if e = KeyError then Inl e else Inr None
                | Inr location_num \<Rightarrow>
                    Inr (Some (customer, location_num, customer_lat, customer_lon)))))"

text \<open>One row of the test-location file: skipped, appended, or an uncaught exception.\<close>

definition simple_location :: "(cell \<rightharpoonup> row) \<Rightarrow> row \<Rightarrow> py_error + location option" where
  "simple_location test_customers r =
     bind_err (getitem r ''customer_id'') (\<lambda>customer.
       if test_customers customer = None then Inr None
       else
         bind_err (getitem r ''latitude'') (\<lambda>la.
           if \<not> truthy la then Inr None
           else
             bind_err (getitem r ''longitude'') (\<lambda>lo.
               if \<not> truthy lo then Inr None
               else try_append r customer la lo)))"

fun load_test_data :: "(cell \<rightharpoonup> row) \<Rightarrow> row list \<Rightarrow> location list \<Rightarrow> py_error + location list" where
  "load_test_data test_customers [] test_data = Inr test_data"
| "load_test_data test_customers (r # rs) test_data =
     bind_err (simple_location test_customers r)
       (\<lambda>x. load_test_data test_customers rs
               (case x of None \<Rightarrow> test_data | Some l \<Rightarrow> test_data @ [l]))"

subsection \<open>The specification's vocabulary\<close>

text \<open>The record appended for a scored vendor.\<close>

definition rec_of :: "cell \<Rightarrow> int \<Rightarrow> int \<times> real \<Rightarrow> recommendation" where
  "rec_of customer location_num x =
     \<lparr>customer_id = customer, location_number = location_num, vendor_id = fst x, score = snd x\<rparr>"

text \<open>The distance bands of the specification.\<close>

definition spec_band :: "real \<Rightarrow> real" where
  "spec_band distance =
     (if distance \<le> 1 then 20 else if distance \<le> 3 then 15 else if distance \<le> 5 then 10
      else if distance \<le> 8 then 5 else 1)"

text \<open>The Preference Index: \<open>has_ordered\<close> and \<open>category_count\<close>.\<close>

definition has_ordered :: "state \<Rightarrow> cell \<Rightarrow> int \<Rightarrow> bool" where
  "has_ordered st customer vid =
     (case customer_orders st customer of None \<Rightarrow> False | Some S \<Rightarrow> vid \<in> S)"

definition category_count :: "state \<Rightarrow> cell \<Rightarrow> cell \<Rightarrow> nat" where
  "category_count st customer cat =
     (case customer_preferences st customer of
        None \<Rightarrow> 0
      | Some cnt \<Rightarrow> (case cnt cat of None \<Rightarrow> 0 | Some n \<Rightarrow> n))"

text \<open>The score accumulated before the closed-vendor multiplier.\<close>

definition pre_multiplier :: "vendor \<Rightarrow> real \<Rightarrow> real" where
  "pre_multiplier v distance =
     spec_band distance + 3 * rating v - 2 * delivery_charge v + 0.5 * discount v"

text \<open>The score before the final clamp at 0, and the score of the specification.\<close>

definition unclamped_score :: "state \<Rightarrow> cell \<Rightarrow> int \<Rightarrow> vendor \<Rightarrow> real \<Rightarrow> real" where
  "unclamped_score st customer vid v distance =
     pre_multiplier v distance * (if is_open v = 0 then 0.1 else 1)
       + (if has_ordered st customer vid then 50 else 0)
       + 2 * real (category_count st customer (category v))"

definition spec_score :: "state \<Rightarrow> cell \<Rightarrow> int \<Rightarrow> vendor \<Rightarrow> real \<Rightarrow> real" where
  "spec_score st customer vid v distance = max 0 (unclamped_score st customer vid v distance)"

text \<open>
  The selection policy of the specification on the scored vendors of a group, in catalog
  order: the highest score, the cutoff, and the first \<open>k\<close> of the vendors that reach the
  cutoff, in descending order of score.
\<close>

definition top_score :: "(int \<times> real) list \<Rightarrow> real" where
  "top_score scored = Max (snd ` set scored)"

definition spec_min_score :: "(int \<times> real) list \<Rightarrow> real" where
  "spec_min_score scored = max 10 (top_score scored * 0.1)"

definition spec_selection :: "nat \<Rightarrow> (int \<times> real) list \<Rightarrow> (int \<times> real) list" where
  "spec_selection k scored =
     take k (filter (\<lambda>x. snd x \<ge> spec_min_score scored) (sort_key (\<lambda>x. - snd x) scored))"

text \<open>The scored vendors of a customer-location, in catalog order.\<close>

definition scored_vendors :: "state \<Rightarrow> location \<Rightarrow> (int \<times> real) list" where
  "scored_vendors st l =
     (case l of (customer, location_num, customer_lat, customer_lon) \<Rightarrow>
        score_vendors st customer customer_lat customer_lon (map fst (vendors st)))"

subsection \<open>Worked examples\<close>

text \<open>
  The catalog of the specification's end-to-end example, and variations of it.
\<close>

definition V1 :: vendor where
  "V1 = \<lparr>lat = 0, lon = 0, category = Str ''A'', rating = 5, delivery_charge = 0,
         serving_distance = 100, is_open = 1, discount = 0\<rparr>"

definition st1 :: state where
  "st1 = \<lparr>vendors = [(1, V1)], customer_orders = Map.empty, customer_preferences = Map.empty\<rparr>"

definition V1_row :: row where
  "V1_row = map_of [(''id'', Str ''1''), (''latitude'', Str ''0''), (''longitude'', Str ''0''),
     (''vendor_category_en'', Str ''A''), (''vendor_rating'', Str ''5''),
     (''delivery_charge'', Str ''0''), (''serving_distance'', Str ''100''),
     (''is_open'', Str ''1''), (''discount_percentage'', Str ''0'')]"

definition C1_row :: row where
  "C1_row = map_of [(''customer_id'', Str ''C1''), (''location_number'', Str ''1''),
     (''latitude'', Str ''0''), (''longitude'', Str ''0'')]"

definition far_row :: row where
  "far_row = map_of [(''customer_id'', Str ''C1''), (''location_number'', Str ''2''),
     (''latitude'', Str ''0''), (''longitude'', Str ''180'')]"

definition order_row :: row where
  "order_row = map_of [(''customer_id'', Str ''C1''), (''vendor_id'', Str ''1'')]"

definition st_hist :: state where
  "st_hist = \<lparr>vendors = [(1, V1)], customer_orders = [Str ''C1'' \<mapsto> {1}],
              customer_preferences = [Str ''C1'' \<mapsto> [Str ''A'' \<mapsto> 2]]\<rparr>"




definition V_closed :: vendor where
  "V_closed = \<lparr>lat = 0, lon = 0, category = Str ''A'', rating = 0, delivery_charge = 0,
         serving_distance = 100, is_open = 0, discount = 0\<rparr>"

definition st_closed :: state where
  "st_closed = \<lparr>vendors = [(1, V_closed)], customer_orders = Map.empty,
                customer_preferences = Map.empty\<rparr>"

definition st6 :: state where
  "st6 = \<lparr>vendors = [(1, V1), (2, V1), (3, V1), (4, V1), (5, V1), (6, V1)],
          customer_orders = Map.empty, customer_preferences = Map.empty\<rparr>"

definition ghost_row :: row where
  "ghost_row = map_of [(''customer_id'', Str ''C1''), (''vendor_id'', Str ''9'')]"

definition st_ghost :: state where
  "st_ghost = \<lparr>vendors = [(1, V1)], customer_orders = [Str ''C1'' \<mapsto> {1, 9}],
               customer_preferences = [Str ''C1'' \<mapsto> [Str ''A'' \<mapsto> 2]]\<rparr>"

definition bad_vendor_row :: row where
  "bad_vendor_row = map_of [(''id'', Str ''''), (''latitude'', Str ''0''), (''longitude'', Str ''0''),
     (''vendor_category_en'', Str ''A''), (''vendor_rating'', Str ''5''),
     (''delivery_charge'', Str ''0''), (''serving_distance'', Str ''100''),
     (''is_open'', Str ''1''), (''discount_percentage'', Str ''0'')]"

definition blank_row :: row where
  "blank_row = map_of [(''customer_id'', Str ''C1''), (''location_number'', Str ''3''),
     (''latitude'', Str ''''), (''longitude'', Str ''0'')]"

definition unparsable_row :: row where
  "unparsable_row = map_of [(''customer_id'', Str ''C1''), (''location_number'', Str ''4''),
     (''latitude'', Str ''0''), (''longitude'', Str ''east'')]"

definition C1_customers :: "cell \<rightharpoonup> row" where
  "C1_customers = [Str ''C1'' \<mapsto> map_of [(''customer_id'', Str ''C1'')]]"

text \<open>
  Two copies of a vendor whose discount is 2 to the power -49 (a double, written out in
  decimal in its row), with one order of customer C1 from the first.
\<close>

definition V_tiny :: vendor where
  "V_tiny = \<lparr>lat = 0, lon = 0, category = Str ''A'', rating = 0, delivery_charge = 10,
         serving_distance = 100, is_open = 1, discount = 1 / 2 ^ 49\<rparr>"

definition st_tiny :: state where
  "st_tiny = \<lparr>vendors = [(1, V_tiny), (2, V_tiny)],
              customer_orders = [Str ''C1'' \<mapsto> {1}],
              customer_preferences = [Str ''C1'' \<mapsto> [Str ''A'' \<mapsto> 1]]\<rparr>"


section \<open>Properties\<close>

subsection \<open>The selection loop\<close>

lemma group_of_append: "group_of (xs @ ys) c l = group_of xs c l @ group_of ys c l"
  by (simp add: group_of_def)

lemma group_of_rec_of_same: "group_of (map (rec_of c l) xs) c l = map (rec_of c l) xs"
  by (induction xs) (simp_all add: group_of_def rec_of_def)

lemma group_of_rec_of_other: "(c', l') \<noteq> (c, l) \<Longrightarrow> group_of (map (rec_of c l) xs) c' l' = []"
  by (induction xs) (auto simp add: group_of_def rec_of_def)

lemma emit_loop_eq:
  "emit_loop c l m xs recs =
     recs @ map (rec_of c l) (take (10 - length (group_of recs c l)) (filter (\<lambda>x. snd x \<ge> m) xs))"
proof (induction xs arbitrary: recs)
  case Nil
  show ?case by simp
next
  case (Cons x xs)
  show ?case
  proof (cases "snd x \<ge> m \<and> length (group_of recs c l) < 10")
    case True
    let ?n = "length (group_of recs c l)"
    have g: "length (group_of (recs @ [rec_of c l x]) c l) = Suc ?n"
      by (simp add: group_of_def rec_of_def)
    have t: "take (10 - ?n) (x # filter (\<lambda>x. snd x \<ge> m) xs)
               = x # take (10 - Suc ?n) (filter (\<lambda>x. snd x \<ge> m) xs)"
    proof -
      have "?n < 10" using True by simp
      then have "10 - ?n = Suc (10 - Suc ?n)" by arith
      then show ?thesis by (simp only: take_Suc_Cons)
    qed
    have "emit_loop c l m (x # xs) recs = emit_loop c l m xs (recs @ [rec_of c l x])"
      using True by (simp add: rec_of_def)
    also have "\<dots> = (recs @ [rec_of c l x]) @
        map (rec_of c l) (take (10 - Suc ?n) (filter (\<lambda>x. snd x \<ge> m) xs))"
      unfolding Cons.IH g ..
    finally show ?thesis using True t by simp
  next
    case False
    then show ?thesis using Cons.IH[of recs] by auto
  qed
qed

lemma candidates_eq: "candidates st l = sort_scores (scored_vendors st l)"
  by (cases l) (simp add: candidates_def scored_vendors_def)

lemma hd_sort_scores:
  assumes "xs \<noteq> []"
  shows "snd (hd (sort_scores xs)) = top_score xs"
proof -
  let ?ys = "sort_key (\<lambda>x. - snd x) xs"
  have ne: "?ys \<noteq> []" using assms by (metis length_sort list.size(3) length_0_conv)
  then obtain y ys where ys: "?ys = y # ys" by (cases ?ys) auto
  have "sorted (map (\<lambda>x. - snd x) ?ys)" by (rule sorted_sort_key)
  then have le: "\<forall>z \<in> set ?ys. snd z \<le> snd y" unfolding ys by auto
  have mem: "y \<in> set xs" using ys by (metis list.set_intros(1) set_sort)
  have "Max (snd ` set xs) = snd y"
  proof (rule Max_eqI)
    show "finite (snd ` set xs)" by simp
    show "snd y \<in> snd ` set xs" using mem by simp
    fix b assume "b \<in> snd ` set xs"
    then show "b \<le> snd y" using le by auto
  qed
  then show ?thesis by (simp add: top_score_def sort_scores_def ys)
qed

lemma min_score_of_sorted:
  "min_score_of (sort_scores xs) = (if xs = [] then 10 else spec_min_score xs)"
proof (cases "xs = []")
  case True
  then show ?thesis by (simp add: min_score_of_def sort_scores_def)
next
  case False
  then have "sort_scores xs \<noteq> []" unfolding sort_scores_def
    by (metis length_sort list.size(3) length_0_conv)
  then obtain y ys where ys: "sort_scores xs = y # ys" by (cases "sort_scores xs") auto
  have "snd y = top_score xs" using hd_sort_scores[OF False] ys by simp
  then show ?thesis using False by (simp add: min_score_of_def ys spec_min_score_def)
qed

lemma process_location_eq:
  "process_location st recs (c, l, la, lo) =
     recs @ map (rec_of c l)
       (spec_selection (10 - length (group_of recs c l)) (scored_vendors st (c, l, la, lo)))"
proof (cases "scored_vendors st (c, l, la, lo) = []")
  case True
  then show ?thesis
    by (simp add: process_location_def Let_def emit_loop_eq candidates_eq sort_scores_def
        spec_selection_def)
next
  case False
  then show ?thesis
    by (simp add: process_location_def Let_def emit_loop_eq candidates_eq min_score_of_sorted
        spec_selection_def, simp add: sort_scores_def)
qed

lemma emitted_eq:
  "emitted st recs (c, l, la, lo) =
     map (rec_of c l)
       (spec_selection (10 - length (group_of recs c l)) (scored_vendors st (c, l, la, lo)))"
  unfolding emitted_def process_location_eq by simp

lemma process_location_emitted:
  "process_location st recs loc = recs @ emitted st recs loc"
  by (cases loc) (simp add: process_location_eq emitted_eq)

subsection \<open>Order of the selection\<close>

lemma spec_selection_set: "set (spec_selection k scored) \<subseteq> set scored"
  unfolding spec_selection_def using set_take_subset[of k] by fastforce

lemma spec_selection_length: "length (spec_selection k scored) \<le> k"
  by (simp add: spec_selection_def)

lemma spec_selection_descending:
  "sorted_wrt (\<lambda>a b. snd a \<ge> snd b) (spec_selection k scored)"
proof -
  have "sorted (map (\<lambda>x. - snd x) (sort_key (\<lambda>x. - snd x) scored))" by (rule sorted_sort_key)
  then have "sorted_wrt (\<lambda>a b. snd a \<ge> snd b) (sort_key (\<lambda>x. - snd x) scored)"
    by (simp add: sorted_wrt_map)
  then have "sorted_wrt (\<lambda>a b. snd a \<ge> snd b)
      (filter (\<lambda>x. snd x \<ge> spec_min_score scored) (sort_key (\<lambda>x. - snd x) scored))"
    by (rule sorted_wrt_filter)
  then show ?thesis unfolding spec_selection_def by (rule sorted_wrt_take)
qed

lemma spec_selection_ties:
  "subseq (filter (\<lambda>x. snd x = s) (spec_selection k scored)) scored"
proof -
  let ?P = "\<lambda>x. snd x \<ge> spec_min_score scored"
  let ?srt = "sort_key (\<lambda>x. - snd x) scored"
  have "filter (\<lambda>x. snd x = s) ?srt = filter (\<lambda>x. - snd x = - s) ?srt"
    by (rule filter_cong) auto
  also have "\<dots> = filter (\<lambda>x. - snd x = - s) scored" by (rule sort_key_stable)
  finally have st: "filter (\<lambda>x. snd x = s) ?srt = filter (\<lambda>x. snd x = s) scored" by simp
  have "subseq (take k (filter ?P ?srt)) (filter ?P ?srt)"
    by (rule prefix_imp_subseq) (rule take_is_prefix)
  then have a: "subseq (filter (\<lambda>x. snd x = s) (take k (filter ?P ?srt)))
                    (filter (\<lambda>x. snd x = s) (filter ?P ?srt))"
    by (rule subseq_filter)
  have "filter (\<lambda>x. snd x = s) (filter ?P ?srt) = filter ?P (filter (\<lambda>x. snd x = s) ?srt)"
    by (simp add: conj_commute)
  then have b: "filter (\<lambda>x. snd x = s) (filter ?P ?srt) = filter ?P (filter (\<lambda>x. snd x = s) scored)"
    by (simp only: st)
  have c: "subseq (filter ?P (filter (\<lambda>x. snd x = s) scored)) scored"
    by (meson subseq_filter_left subseq_order.order_trans)
  have "subseq (filter (\<lambda>x. snd x = s) (take k (filter ?P ?srt))) scored"
    using a c unfolding b by (rule subseq_order.order_trans)
  then show ?thesis unfolding spec_selection_def .
qed

subsection \<open>The score\<close>

lemma band_eq:
  "(if d \<le> 1 then (0::real) + 20 else if d \<le> 3 then 0 + 15 else if d \<le> 5 then 0 + 10
    else if d \<le> 8 then 0 + 5 else 0 + 1) = spec_band d"
  by (simp add: spec_band_def)

lemma score_in_range:
  assumes "map_of (vendors st) vid = Some v"
    and "haversine_distance la lo (lat v) (lon v) \<le> serving_distance v"
  shows "calculate_vendor_score st c la lo vid
           = spec_score st c vid v (haversine_distance la lo (lat v) (lon v))"
proof -
  let ?d = "haversine_distance la lo (lat v) (lon v)"
  have nd: "\<not> ?d > serving_distance v" using assms(2) by simp
  have o: "(vid \<in> (case customer_orders st c of None \<Rightarrow> {} | Some S \<Rightarrow> S)) = has_ordered st c vid"
    by (simp add: has_ordered_def split: option.splits)
  have "calculate_vendor_score st c la lo vid =
     max 0 ((case customer_preferences st c of
               None \<Rightarrow> (\<lambda>s. s)
             | Some cnt \<Rightarrow> (\<lambda>s. s + real (case cnt (category v) of None \<Rightarrow> 0 | Some n \<Rightarrow> n) * 2))
            ((if has_ordered st c vid then (\<lambda>s. s + 50) else (\<lambda>s. s))
             ((if is_open v = 0 then (\<lambda>s. s * 0.1) else (\<lambda>s. s))
               (spec_band ?d + rating v * 3 - delivery_charge v * 2 + discount v * 0.5))))"
    unfolding calculate_vendor_score_def assms(1) option.case Let_def if_not_P[OF nd] band_eq o
    by (cases "customer_preferences st c") simp_all
  also have "\<dots> = spec_score st c vid v ?d"
    unfolding spec_score_def unclamped_score_def pre_multiplier_def category_count_def
    by (cases "customer_preferences st c") (simp_all add: mult.commute)
  finally show ?thesis .
qed

lemma score_out_of_range:
  assumes "map_of (vendors st) vid = Some v"
    and "haversine_distance la lo (lat v) (lon v) > serving_distance v"
  shows "calculate_vendor_score st c la lo vid = 0"
  using assms by (simp add: calculate_vendor_score_def Let_def)

lemma score_unknown:
  assumes "map_of (vendors st) vid = None"
  shows "calculate_vendor_score st c la lo vid = 0"
  using assms by (simp add: calculate_vendor_score_def)

lemma score_nonneg: "0 \<le> calculate_vendor_score st c la lo vid"
proof (cases "map_of (vendors st) vid")
  case None
  then show ?thesis by (simp add: score_unknown)
next
  case (Some v)
  show ?thesis
  proof (cases "haversine_distance la lo (lat v) (lon v) \<le> serving_distance v")
    case True
    show ?thesis unfolding score_in_range[OF Some True] spec_score_def by simp
  next
    case False
    then show ?thesis using score_out_of_range[OF Some] by simp
  qed
qed

subsection \<open>The scored vendors\<close>

lemma score_vendors_set:
  "(v, s) \<in> set (score_vendors st c la lo ids) \<longleftrightarrow>
     v \<in> set ids \<and> s = calculate_vendor_score st c la lo v \<and> s > 0"
  by (induction ids) (auto simp add: Let_def)

lemma score_vendors_ids:
  "map fst (score_vendors st c la lo ids)
     = filter (\<lambda>v. calculate_vendor_score st c la lo v > 0) ids"
  by (induction ids) (simp_all add: Let_def)

lemma scored_vendors_set:
  "(v, s) \<in> set (scored_vendors st (c, l, la, lo)) \<longleftrightarrow>
     v \<in> fst ` set (vendors st) \<and> s = calculate_vendor_score st c la lo v \<and> s > 0"
  by (simp add: scored_vendors_def score_vendors_set)

lemma scored_vendors_catalog_order:
  "subseq (map fst (scored_vendors st (c, l, la, lo))) (map fst (vendors st))"
  by (simp add: scored_vendors_def score_vendors_ids)

subsection \<open>One customer-location\<close>

lemma spec_selection_mem:
  assumes "x \<in> set (spec_selection k scored)"
  shows "x \<in> set scored \<and> snd x \<ge> spec_min_score scored"
proof -
  have "x \<in> set (filter (\<lambda>x. snd x \<ge> spec_min_score scored) (sort_key (\<lambda>x. - snd x) scored))"
    using assms unfolding spec_selection_def by (rule in_set_takeD)
  then show ?thesis by simp
qed

lemma emitted_key:
  assumes "r \<in> set (emitted st recs (c, l, la, lo))"
  shows "customer_id r = c \<and> location_number r = l
         \<and> (vendor_id r, score r) \<in> set (scored_vendors st (c, l, la, lo))
         \<and> score r \<ge> 10"
proof -
  from assms obtain x
    where x: "x \<in> set (spec_selection (10 - length (group_of recs c l))
                          (scored_vendors st (c, l, la, lo)))"
      and r: "r = rec_of c l x"
    unfolding emitted_eq by auto
  have "x \<in> set (scored_vendors st (c, l, la, lo))"
    and "snd x \<ge> spec_min_score (scored_vendors st (c, l, la, lo))"
    using spec_selection_mem[OF x] by simp_all
  moreover have "spec_min_score (scored_vendors st (c, l, la, lo)) \<ge> 10"
    unfolding spec_min_score_def by simp
  ultimately show ?thesis by (simp add: r rec_of_def)
qed

lemma group_of_process_same:
  "group_of (process_location st recs (c, l, la, lo)) c l
     = group_of recs c l @ emitted st recs (c, l, la, lo)"
  unfolding process_location_emitted group_of_append
  by (simp add: emitted_eq group_of_rec_of_same)

lemma group_of_process_other:
  "(c', l') \<noteq> (c, l) \<Longrightarrow>
     group_of (process_location st recs (c, l, la, lo)) c' l' = group_of recs c' l'"
  unfolding process_location_emitted group_of_append
  by (simp add: emitted_eq group_of_rec_of_other)

lemma emitted_length:
  "length (emitted st recs (c, l, la, lo)) \<le> 10 - length (group_of recs c l)"
  by (simp add: emitted_eq spec_selection_length)

lemma group_of_process_le:
  assumes "length (group_of recs c' l') \<le> 10"
  shows "length (group_of (process_location st recs (c, l, la, lo)) c' l') \<le> 10"
proof (cases "(c', l') = (c, l)")
  case True
  then show ?thesis
    using assms emitted_length[of st recs c l la lo] by (simp add: group_of_process_same)
next
  case False
  then show ?thesis using assms by (simp add: group_of_process_other)
qed

lemma top_score_mem:
  assumes "scored \<noteq> []"
  shows "\<exists>y \<in> set scored. snd y = top_score scored \<and> (\<forall>x \<in> set scored. snd x \<le> snd y)"
proof -
  have "Max (snd ` set scored) \<in> snd ` set scored" using assms by (intro Max_in) simp_all
  then obtain y where y: "y \<in> set scored" "snd y = top_score scored"
    unfolding top_score_def by auto
  have "\<forall>x \<in> set scored. snd x \<le> top_score scored" unfolding top_score_def by simp
  then show ?thesis using y by (intro bexI[of _ y]) simp_all
qed

lemma spec_selection_nonempty:
  assumes "x \<in> set scored" and "snd x \<ge> 10" and "0 < k"
  shows "spec_selection k scored \<noteq> []"
proof -
  have ne: "scored \<noteq> []" using assms(1) by auto
  from top_score_mem[OF ne] obtain y where y: "y \<in> set scored" "snd y = top_score scored"
    and mx: "\<forall>x \<in> set scored. snd x \<le> snd y" by blast
  have "snd y \<ge> 10" using mx assms(1,2) by fastforce
  then have "snd y \<ge> spec_min_score scored" unfolding spec_min_score_def y(2)[symmetric] by simp
  then have "\<exists>z \<in> set (sort_key (\<lambda>x. - snd x) scored). snd z \<ge> spec_min_score scored"
    using y(1) by auto
  then have "filter (\<lambda>x. snd x \<ge> spec_min_score scored) (sort_key (\<lambda>x. - snd x) scored) \<noteq> []"
    unfolding filter_empty_conv by blast
  then show ?thesis using assms(3) unfolding spec_selection_def by (simp add: take_eq_Nil)
qed

lemma spec_selection_empty:
  assumes "\<forall>x \<in> set scored. snd x < 10"
  shows "spec_selection k scored = []"
proof -
  have "spec_min_score scored \<ge> 10" unfolding spec_min_score_def by simp
  then have "filter (\<lambda>x. snd x \<ge> spec_min_score scored) (sort_key (\<lambda>x. - snd x) scored) = []"
    using assms by (fastforce simp add: filter_empty_conv)
  then show ?thesis by (simp add: spec_selection_def)
qed

lemma process_location_nonempty:
  assumes "x \<in> set (scored_vendors st (c, l, la, lo))" and "snd x \<ge> 10"
  shows "group_of (process_location st recs (c, l, la, lo)) c l \<noteq> []"
proof (cases "group_of recs c l = []")
  case True
  have "spec_selection 10 (scored_vendors st (c, l, la, lo)) \<noteq> []"
    using assms by (rule spec_selection_nonempty) simp
  then show ?thesis unfolding group_of_process_same emitted_eq True by simp
next
  case False
  then show ?thesis unfolding group_of_process_same by simp
qed

subsection \<open>The whole run\<close>

lemma locations_loop_Cons:
  assumes "locations_loop st (r # rows) recs = Inr out"
  obtains loc where "parse_location r = Inr loc"
    and "locations_loop st rows (process_location st recs loc) = Inr out"
  using assms by (auto simp add: bind_err_def split: sum.splits)

lemma locations_loop_cap:
  "locations_loop st rows recs = Inr out \<Longrightarrow> length (group_of recs c l) \<le> 10
     \<Longrightarrow> length (group_of out c l) \<le> 10"
proof (induction rows arbitrary: recs)
  case Nil
  then show ?case by simp
next
  case (Cons r rows)
  from Cons.prems(1) obtain loc where p: "parse_location r = Inr loc"
    and rest: "locations_loop st rows (process_location st recs loc) = Inr out"
    by (rule locations_loop_Cons)
  obtain c0 l0 la lo where loc: "loc = (c0, l0, la, lo)" by (cases loc) auto
  show ?case
    using Cons.IH[OF rest] group_of_process_le[OF Cons.prems(2)] unfolding loc by blast
qed

lemma locations_loop_prefix:
  "locations_loop st rows recs = Inr out \<Longrightarrow> prefix recs out"
proof (induction rows arbitrary: recs)
  case Nil
  then show ?case by simp
next
  case (Cons r rows)
  from Cons.prems obtain loc
    where rest: "locations_loop st rows (process_location st recs loc) = Inr out"
    by (rule locations_loop_Cons)
  have "prefix recs (process_location st recs loc)" by (simp add: process_location_emitted)
  then show ?case using Cons.IH[OF rest] by (rule prefix_order.order_trans)
qed

lemma group_of_prefix_nonempty:
  assumes "prefix xs ys" and "group_of xs c l \<noteq> []"
  shows "group_of ys c l \<noteq> []"
  using assms by (auto simp add: prefix_def group_of_append)

lemma locations_loop_nonempty:
  "locations_loop st rows recs = Inr out \<Longrightarrow> r \<in> set rows
     \<Longrightarrow> parse_location r = Inr (c, l, la, lo)
     \<Longrightarrow> x \<in> set (scored_vendors st (c, l, la, lo)) \<Longrightarrow> snd x \<ge> 10
     \<Longrightarrow> group_of out c l \<noteq> []"
proof (induction rows arbitrary: recs)
  case Nil
  then show ?case by simp
next
  case (Cons r0 rows)
  from Cons.prems(1) obtain loc where p: "parse_location r0 = Inr loc"
    and rest: "locations_loop st rows (process_location st recs loc) = Inr out"
    by (rule locations_loop_Cons)
  show ?case
  proof (cases "r = r0")
    case True
    then have loc: "loc = (c, l, la, lo)" using p Cons.prems(3) by simp
    have "group_of (process_location st recs loc) c l \<noteq> []"
      unfolding loc using Cons.prems(4,5) by (rule process_location_nonempty)
    with locations_loop_prefix[OF rest] show ?thesis by (rule group_of_prefix_nonempty)
  next
    case False
    then have "r \<in> set rows" using Cons.prems(2) by simp
    then show ?thesis using Cons.IH[OF rest _ Cons.prems(3,4,5)] by simp
  qed
qed

lemma locations_loop_provenance:
  "locations_loop st rows recs = Inr out \<Longrightarrow> r \<in> set out \<Longrightarrow>
     r \<in> set recs \<or>
     (\<exists>row \<in> set rows. \<exists>la lo.
        parse_location row = Inr (customer_id r, location_number r, la, lo)
        \<and> (vendor_id r, score r)
            \<in> set (scored_vendors st (customer_id r, location_number r, la, lo))
        \<and> score r \<ge> 10)"
proof (induction rows arbitrary: recs)
  case Nil
  then show ?case by simp
next
  case (Cons r0 rows)
  from Cons.prems(1) obtain loc where p: "parse_location r0 = Inr loc"
    and rest: "locations_loop st rows (process_location st recs loc) = Inr out"
    by (rule locations_loop_Cons)
  obtain c l la lo where loc: "loc = (c, l, la, lo)" by (cases loc) auto
  from Cons.IH[OF rest Cons.prems(2)] consider
    (old) "r \<in> set recs" | (new) "r \<in> set (emitted st recs loc)"
    | (later) "\<exists>row \<in> set rows. \<exists>la lo.
        parse_location row = Inr (customer_id r, location_number r, la, lo)
        \<and> (vendor_id r, score r)
            \<in> set (scored_vendors st (customer_id r, location_number r, la, lo))
        \<and> score r \<ge> 10"
    unfolding process_location_emitted by auto
  then show ?case
  proof cases
    case old
    then show ?thesis by simp
  next
    case new
    from emitted_key[OF new[unfolded loc]] show ?thesis using p loc by auto
  next
    case later
    then show ?thesis by auto
  qed
qed

lemma generate_recommendations_Inr:
  assumes "generate_recommendations st crows lrows = Inr out"
  shows "locations_loop st lrows [] = Inr out"
  using assms by (auto simp add: generate_recommendations_def bind_err_def split: sum.splits)

subsection \<open>Evaluating the examples\<close>

lemmas parse_defs = py_int_def py_float_def py_ufloat_def strip_def is_space_def py_digits_def
  is_digit_def digits_val_def getitem_def int_of_cell_def float_of_cell_def int_field_def
  float_field_def float_default_def int_default_def bind_err_def

lemma haversine_same_point: "haversine_distance x y x y = 0"
  by (simp add: haversine_distance_def haversine_a_def)

lemma haversine_antipode: "haversine_distance 0 180 0 0 = 6371 * pi"
  by (simp add: haversine_distance_def haversine_a_def radians_def)

lemma V1_row_parse: "parse_vendor V1_row = Inr (1, V1)"
  by (simp add: parse_vendor_def V1_row_def V1_def parse_defs)

lemma C1_row_parse: "parse_location C1_row = Inr (Str ''C1'', 1, 0, 0)"
  by (simp add: parse_location_def C1_row_def parse_defs)

lemma far_row_parse: "parse_location far_row = Inr (Str ''C1'', 2, 0, 180)"
  by (simp add: parse_location_def far_row_def parse_defs)

lemma st1_load: "load_data init [V1_row] [] = Inr st1"
  by (simp add: load_data_def V1_row_parse bind_err_def init_def st1_def)

lemma order_row_load: "load_order st order_row =
   (let st1 = st\<lparr>customer_orders := add_order (customer_orders st) (Str ''C1'') 1\<rparr>
    in case map_of (vendors st1) 1 of None \<Rightarrow> Inr st1
       | Some v \<Rightarrow> Inr (st1\<lparr>customer_preferences :=
                          bump_category (customer_preferences st1) (Str ''C1'') (category v)\<rparr>))"
  by (simp add: load_order_def order_row_def parse_defs)

lemma st_hist_load: "load_data init [V1_row] [order_row, order_row] = Inr st_hist"
  by (simp add: load_data_def V1_row_parse bind_err_def init_def st_hist_def order_row_load
      add_order_def bump_category_def V1_def numeral_2_eq_2)

lemma st1_vendors: "vendors st1 = [(1, V1)]" by (simp add: st1_def)

lemma st1_score: "calculate_vendor_score st1 (Str ''C1'') 0 0 1 = 35"
  by (simp add: calculate_vendor_score_def st1_def V1_def haversine_same_point)

lemma st1_scored: "scored_vendors st1 (Str ''C1'', 1, 0, 0) = [(1, 35)]"
  by (simp add: scored_vendors_def st1_vendors st1_score)

lemma st_hist_score: "calculate_vendor_score st_hist (Str ''C1'') 0 0 1 = 89"
  by (simp add: calculate_vendor_score_def st_hist_def V1_def haversine_same_point)

lemma st1_generate: "generate_recommendations st1 [] [C1_row] =
   Inr [\<lparr>customer_id = Str ''C1'', location_number = 1, vendor_id = 1, score = 35\<rparr>]"
  by (simp add: generate_recommendations_def bind_err_def C1_row_parse process_location_eq
      st1_scored spec_selection_def spec_min_score_def top_score_def group_of_def rec_of_def)

lemma st1_generate_twice: "generate_recommendations st1 [] [C1_row, C1_row] =
   Inr [\<lparr>customer_id = Str ''C1'', location_number = 1, vendor_id = 1, score = 35\<rparr>,
        \<lparr>customer_id = Str ''C1'', location_number = 1, vendor_id = 1, score = 35\<rparr>]"
  by (simp add: generate_recommendations_def bind_err_def C1_row_parse process_location_eq
      st1_scored spec_selection_def spec_min_score_def top_score_def group_of_def rec_of_def)

subsection \<open>The bonuses do not depend on the catalog\<close>

lemma has_ordered_vendors_update [simp]:
  "has_ordered (st\<lparr>vendors := vs\<rparr>) c vid = has_ordered st c vid"
  by (simp add: has_ordered_def)

lemma category_count_vendors_update [simp]:
  "category_count (st\<lparr>vendors := vs\<rparr>) c cat = category_count st c cat"
  by (simp add: category_count_def)

subsection \<open>The distance is defined everywhere\<close>

lemma haversine_a_range: "0 \<le> haversine_a p1 l1 p2 l2 \<and> haversine_a p1 l1 p2 l2 \<le> 1"
proof -
  define s where "s = (sin ((l2 - l1) / 2))\<^sup>2"
  define cd where "cd = cos (p2 - p1)"
  define cs where "cs = cos (p2 + p1)"
  have s: "0 \<le> s" "s \<le> 1" unfolding s_def by (simp_all add: abs_square_le_1)
  have cd: "- 1 \<le> cd" "cd \<le> 1" unfolding cd_def by simp_all
  have cs: "- 1 \<le> cs" "cs \<le> 1" unfolding cs_def by simp_all
  have "cos (2 * ((p2 - p1) / 2)) = 1 - 2 * (sin ((p2 - p1) / 2))\<^sup>2"
    by (rule cos_double_sin)
  moreover have "2 * ((p2 - p1) / 2) = p2 - p1" by simp
  ultimately have h: "(sin ((p2 - p1) / 2))\<^sup>2 = (1 - cd) / 2"
    unfolding cd_def by (simp only:) simp
  have p: "cos p1 * cos p2 = (cd + cs) / 2"
    unfolding cd_def cs_def by (simp add: cos_add cos_diff)
  have a: "haversine_a p1 l1 p2 l2 = (1 - cd) / 2 + (cd + cs) / 2 * s"
    unfolding haversine_a_def Let_def h p s_def by simp
  have lo: "0 \<le> (1 - s) * (1 - cd) + s * (1 + cs)" using s cd cs by simp
  have hi: "0 \<le> (1 - s) * (1 + cd) + s * (1 - cs)" using s cd cs by simp
  have "2 * haversine_a p1 l1 p2 l2 = (1 - s) * (1 - cd) + s * (1 + cs)"
    unfolding a by algebra
  moreover have "2 - 2 * haversine_a p1 l1 p2 l2 = (1 - s) * (1 + cd) + s * (1 - cs)"
    unfolding a by algebra
  ultimately show ?thesis using lo hi by linarith
qed

lemma haversine_sqrt_range:
  "0 \<le> sqrt (haversine_a p1 l1 p2 l2) \<and> sqrt (haversine_a p1 l1 p2 l2) \<le> 1"
  using haversine_a_range[of p1 l1 p2 l2] by simp

lemma haversine_checked_total:
  "haversine_checked lat1 lon1 lat2 lon2 = Inr (haversine_distance lat1 lon1 lat2 lon2)"
proof -
  let ?a = "haversine_a (radians lat1) (radians lon1) (radians lat2) (radians lon2)"
  have a: "\<not> ?a < 0" using haversine_a_range[of "radians lat1"] by (simp add: not_less)
  have "0 \<le> sqrt ?a" "sqrt ?a \<le> 1" using haversine_sqrt_range[of "radians lat1"] by blast+
  then have s: "\<not> (sqrt ?a < - 1 \<or> 1 < sqrt ?a)" by linarith
  show ?thesis
    unfolding haversine_checked_def haversine_distance_def Let_def if_not_P[OF a] if_not_P[OF s]
    by simp
qed

lemma haversine_nonneg: "0 \<le> haversine_distance lat1 lon1 lat2 lon2"
proof -
  let ?a = "haversine_a (radians lat1) (radians lon1) (radians lat2) (radians lon2)"
  have "0 \<le> sqrt ?a" "sqrt ?a \<le> 1" using haversine_sqrt_range[of "radians lat1"] by blast+
  then have "arcsin 0 \<le> arcsin (sqrt ?a)" by (subst arcsin_le_mono) simp_all
  then show ?thesis by (simp add: haversine_distance_def Let_def)
qed

subsection \<open>Examples: a distant customer, a closed vendor\<close>

lemma far_scored: "scored_vendors st1 (Str ''C1'', 2, 0, 180) = []"
proof -
  have "(100::real) < 6371 * pi" using pi_ge_two by simp
  then have "calculate_vendor_score st1 (Str ''C1'') 0 180 1 = 0"
    by (intro score_out_of_range[where v = V1]) (simp_all add: st1_vendors V1_def haversine_antipode)
  then show ?thesis by (simp add: scored_vendors_def st1_vendors)
qed

lemma st1_generate_far: "generate_recommendations st1 [] [C1_row, far_row] =
   Inr [\<lparr>customer_id = Str ''C1'', location_number = 1, vendor_id = 1, score = 35\<rparr>]"
  by (simp add: generate_recommendations_def bind_err_def C1_row_parse far_row_parse
      process_location_eq st1_scored far_scored spec_selection_def spec_min_score_def
      top_score_def group_of_def rec_of_def)

lemma st_closed_score: "calculate_vendor_score st_closed (Str ''C1'') 0 0 1 = 2"
  by (simp add: calculate_vendor_score_def st_closed_def V_closed_def haversine_same_point)

lemma st_closed_generate: "generate_recommendations st_closed [] [C1_row] = Inr []"
proof -
  have "vendors st_closed = [(1, V_closed)]" by (simp add: st_closed_def)
  then have "scored_vendors st_closed (Str ''C1'', 1, 0, 0) = [(1, 2)]"
    by (simp add: scored_vendors_def st_closed_score)
  then show ?thesis
    by (simp add: generate_recommendations_def bind_err_def C1_row_parse process_location_eq
      spec_selection_def spec_min_score_def top_score_def group_of_def rec_of_def)
qed

subsection \<open>A pair that occurs in one row\<close>

lemma bind_err_Inr [simp]: "bind_err (Inr x) f = f x"
  by (simp add: bind_err_def)

lemma bind_err_Inl [simp]: "bind_err (Inl e) f = Inl e"
  by (simp add: bind_err_def)

lemma bind_err_assoc: "bind_err (bind_err m f) g = bind_err m (\<lambda>x. bind_err (f x) g)"
  by (cases m) simp_all

lemma locations_loop_append:
  "locations_loop st (xs @ ys) recs = bind_err (locations_loop st xs recs) (locations_loop st ys)"
proof (induction xs arbitrary: recs)
  case Nil
  show ?case by simp
next
  case (Cons r xs)
  show ?case by (cases "parse_location r") (simp_all add: Cons.IH)
qed

lemma locations_loop_other:
  "locations_loop st rows recs = Inr out
     \<Longrightarrow> \<forall>r \<in> set rows. \<forall>la lo. parse_location r \<noteq> Inr (c, l, la, lo)
     \<Longrightarrow> group_of out c l = group_of recs c l"
proof (induction rows arbitrary: recs)
  case Nil
  then show ?case by simp
next
  case (Cons r rows)
  from Cons.prems(1) obtain loc where p: "parse_location r = Inr loc"
    and rest: "locations_loop st rows (process_location st recs loc) = Inr out"
    by (rule locations_loop_Cons)
  obtain c0 l0 la lo where loc: "loc = (c0, l0, la, lo)" by (cases loc) auto
  have "(c, l) \<noteq> (c0, l0)" using Cons.prems(2) p loc by auto
  then have "group_of (process_location st recs loc) c l = group_of recs c l"
    unfolding loc by (rule group_of_process_other)
  moreover have "group_of out c l = group_of (process_location st recs loc) c l"
    using rest Cons.prems(2) by (intro Cons.IH) simp_all
  ultimately show ?case by simp
qed

lemma locations_loop_unique_pair:
  assumes loop: "locations_loop st (before @ row # after) [] = Inr out"
    and row: "parse_location row = Inr (c, l, la, lo)"
    and uniq: "\<forall>r \<in> set before \<union> set after. \<forall>la' lo'. parse_location r \<noteq> Inr (c, l, la', lo')"
  shows "group_of out c l = map (rec_of c l) (spec_selection 10 (scored_vendors st (c, l, la, lo)))"
proof -
  from loop obtain mid where b: "locations_loop st before [] = Inr mid"
    and r: "locations_loop st (row # after) mid = Inr out"
    unfolding locations_loop_append by (cases "locations_loop st before []") simp_all
  have a: "locations_loop st after (process_location st mid (c, l, la, lo)) = Inr out"
    using r row by simp
  have "group_of mid c l = group_of [] c l"
    by (rule locations_loop_other[OF b]) (use uniq in blast)
  then have mid: "group_of mid c l = []" by (simp add: group_of_def)
  have "group_of out c l = group_of (process_location st mid (c, l, la, lo)) c l"
    by (rule locations_loop_other[OF a]) (use uniq in blast)
  then show ?thesis unfolding group_of_process_same emitted_eq mid by simp
qed

lemma rec_of_fields [simp]:
  "customer_id (rec_of c l x) = c" "location_number (rec_of c l x) = l"
  "vendor_id (rec_of c l x) = fst x" "score (rec_of c l x) = snd x"
  by (simp_all add: rec_of_def)

lemma selection_descending:
  "sorted_wrt (\<lambda>a b. score a \<ge> score b) (map (rec_of c l) (spec_selection k scored))"
  using spec_selection_descending[of k scored] by (simp add: sorted_wrt_map)

lemma selection_ties:
  "subseq (map vendor_id (filter (\<lambda>r. score r = s)
             (map (rec_of c l) (spec_selection k (scored_vendors st (c, l, la, lo))))))
          (map fst (vendors st))"
proof -
  let ?sel = "spec_selection k (scored_vendors st (c, l, la, lo))"
  have "map vendor_id (filter (\<lambda>r. score r = s) (map (rec_of c l) ?sel))
          = map fst (filter (\<lambda>x. snd x = s) ?sel)"
    by (simp add: filter_map comp_def)
  moreover have "subseq (map fst (filter (\<lambda>x. snd x = s) ?sel))
                        (map fst (scored_vendors st (c, l, la, lo)))"
    using spec_selection_ties by (rule subseq_map)
  ultimately show ?thesis
    using scored_vendors_catalog_order[of st c l la lo] by (simp add: subseq_order.order_trans)
qed

lemma top_score_is_max:
  assumes "scored \<noteq> []"
  shows "top_score scored \<in> snd ` set scored \<and> (\<forall>x \<in> set scored. snd x \<le> top_score scored)"
  using top_score_mem[OF assms] by force

subsection \<open>Example: six vendors and a repeated row\<close>

lemma st6_vendors: "vendors st6 = [(1, V1), (2, V1), (3, V1), (4, V1), (5, V1), (6, V1)]"
  by (simp add: st6_def)

lemma st6_score:
  assumes "vid \<in> {1, 2, 3, 4, 5, 6}"
  shows "calculate_vendor_score st6 (Str ''C1'') 0 0 vid = 35"
proof -
  have m: "map_of (vendors st6) vid = Some V1" using assms by (auto simp add: st6_vendors)
  have r: "haversine_distance 0 0 (lat V1) (lon V1) \<le> serving_distance V1"
    by (simp add: V1_def haversine_same_point)
  show ?thesis unfolding score_in_range[OF m r]
    by (simp add: spec_score_def unclamped_score_def pre_multiplier_def spec_band_def
        has_ordered_def category_count_def haversine_same_point V1_def st6_def)
qed

lemma st6_scored:
  "scored_vendors st6 (Str ''C1'', 1, 0, 0) = [(1, 35), (2, 35), (3, 35), (4, 35), (5, 35), (6, 35)]"
  by (simp add: scored_vendors_def st6_vendors st6_score)

lemma st6_selection:
  "spec_selection k (scored_vendors st6 (Str ''C1'', 1, 0, 0))
     = take k [(1, 35), (2, 35), (3, 35), (4, 35), (5, 35), (6, 35)]"
  by (simp add: st6_scored spec_selection_def spec_min_score_def top_score_def)

lemma st6_first_row:
  "process_location st6 [] (Str ''C1'', 1, 0, 0)
     = map (rec_of (Str ''C1'') 1) [(1, 35), (2, 35), (3, 35), (4, 35), (5, 35), (6, 35)]"
  by (simp add: process_location_eq st6_selection group_of_def)

lemma st6_second_row:
  "emitted st6 (process_location st6 [] (Str ''C1'', 1, 0, 0)) (Str ''C1'', 1, 0, 0)
     = map (rec_of (Str ''C1'') 1) [(1, 35), (2, 35), (3, 35), (4, 35)]"
proof -
  let ?six = "[(1::int, 35::real), (2, 35), (3, 35), (4, 35), (5, 35), (6, 35)]"
  have e: "emitted st6 (map (rec_of (Str ''C1'') 1) ?six) (Str ''C1'', 1, 0, 0)
      = map (rec_of (Str ''C1'') 1) (take (10 - length (map (rec_of (Str ''C1'') 1) ?six)) ?six)"
    by (simp only: emitted_eq st6_selection group_of_rec_of_same)
  have t: "take (10 - length (map (rec_of (Str ''C1'') 1) ?six)) ?six
      = [(1, 35), (2, 35), (3, 35), (4, 35)]"
    by simp
  show ?thesis unfolding st6_first_row e t ..
qed

lemma st6_generate_twice:
  "generate_recommendations st6 [] [C1_row, C1_row]
     = Inr (map (rec_of (Str ''C1'') 1)
         [(1, 35), (2, 35), (3, 35), (4, 35), (5, 35), (6, 35),
          (1, 35), (2, 35), (3, 35), (4, 35)])"
proof -
  have "generate_recommendations st6 [] [C1_row, C1_row]
      = Inr (process_location st6 (process_location st6 [] (Str ''C1'', 1, 0, 0))
               (Str ''C1'', 1, 0, 0))"
    by (simp add: generate_recommendations_def C1_row_parse)
  also have "process_location st6 (process_location st6 [] (Str ''C1'', 1, 0, 0))
               (Str ''C1'', 1, 0, 0)
      = process_location st6 [] (Str ''C1'', 1, 0, 0)
        @ emitted st6 (process_location st6 [] (Str ''C1'', 1, 0, 0)) (Str ''C1'', 1, 0, 0)"
    by (rule process_location_emitted)
  also have "\<dots> = process_location st6 [] (Str ''C1'', 1, 0, 0)
        @ map (rec_of (Str ''C1'') 1) [(1, 35), (2, 35), (3, 35), (4, 35)]"
    by (simp only: st6_second_row)
  also have "\<dots> = map (rec_of (Str ''C1'') 1)
         [(1, 35), (2, 35), (3, 35), (4, 35), (5, 35), (6, 35),
          (1, 35), (2, 35), (3, 35), (4, 35)]"
    by (simp add: st6_first_row)
  finally show ?thesis .
qed

subsection \<open>Loading the order history\<close>

lemma load_orders_append:
  "load_orders (xs @ ys) st = bind_err (load_orders xs st) (load_orders ys)"
proof (induction xs arbitrary: st)
  case Nil
  show ?case by simp
next
  case (Cons r xs)
  show ?case by (cases "load_order st r") (simp_all add: Cons.IH)
qed

lemma load_order_Inr:
  assumes "load_order st r = Inr st'"
  obtains c v where "getitem r ''customer_id'' = Inr c" and "int_field r ''vendor_id'' = Inr v"
    and "customer_orders st' = add_order (customer_orders st) c v"
    and "vendors st' = vendors st"
    and "customer_preferences st' =
           (case map_of (vendors st) v of
              None \<Rightarrow> customer_preferences st
            | Some w \<Rightarrow> bump_category (customer_preferences st) c (category w))"
proof (cases "getitem r ''customer_id''")
  case (Inl e)
  then show ?thesis using assms by (simp add: load_order_def)
next
  case c: (Inr c)
  show ?thesis
  proof (cases "int_field r ''vendor_id''")
    case (Inl e)
    then show ?thesis using assms c by (simp add: load_order_def)
  next
    case v: (Inr v)
    have "st' = (let st1 = st\<lparr>customer_orders := add_order (customer_orders st) c v\<rparr>
        in case map_of (vendors st1) v of
             None \<Rightarrow> st1
           | Some w \<Rightarrow> st1\<lparr>customer_preferences :=
                          bump_category (customer_preferences st1) c (category w)\<rparr>)"
      using assms c v by (simp add: load_order_def Let_def split: option.splits)
    then show ?thesis using that[OF c v] by (simp add: Let_def split: option.splits)
  qed
qed

lemma load_order_agree:
  assumes "load_order sa r = Inr a"
    and "vendors sb = vendors sa" and "customer_preferences sb = customer_preferences sa"
  shows "\<exists>b. load_order sb r = Inr b \<and> vendors b = vendors a
              \<and> customer_preferences b = customer_preferences a"
proof -
  from assms(1) obtain c v where c: "getitem r ''customer_id'' = Inr c"
    and v: "int_field r ''vendor_id'' = Inr v"
    and va: "vendors a = vendors sa"
    and pa: "customer_preferences a =
           (case map_of (vendors sa) v of
              None \<Rightarrow> customer_preferences sa
            | Some w \<Rightarrow> bump_category (customer_preferences sa) c (category w))"
    by (rule load_order_Inr)
  show ?thesis using c v va pa assms(2,3)
    by (simp add: load_order_def Let_def split: option.splits)
qed

lemma load_orders_agree:
  "load_orders rows sa = Inr a \<Longrightarrow> vendors sb = vendors sa
     \<Longrightarrow> customer_preferences sb = customer_preferences sa
     \<Longrightarrow> \<exists>b. load_orders rows sb = Inr b \<and> vendors b = vendors a
              \<and> customer_preferences b = customer_preferences a"
proof (induction rows arbitrary: sa sb)
  case Nil
  then show ?case by simp
next
  case (Cons r rows)
  from Cons.prems(1) obtain a1 where a1: "load_order sa r = Inr a1"
    and rest: "load_orders rows a1 = Inr a"
    by (cases "load_order sa r") simp_all
  from load_order_agree[OF a1 Cons.prems(2,3)] obtain b1
    where b1: "load_order sb r = Inr b1" "vendors b1 = vendors a1"
      "customer_preferences b1 = customer_preferences a1" by blast
  from Cons.IH[OF rest b1(2,3)] show ?case by (simp add: b1(1))
qed

lemma load_orders_vendors:
  "load_orders rows st = Inr st' \<Longrightarrow> vendors st' = vendors st"
proof (induction rows arbitrary: st)
  case Nil
  then show ?case by simp
next
  case (Cons r rows)
  from Cons.prems obtain s1 where s1: "load_order st r = Inr s1"
    and rest: "load_orders rows s1 = Inr st'"
    by (cases "load_order st r") simp_all
  have "vendors s1 = vendors st" using s1 by (rule load_order_Inr)
  then show ?case using Cons.IH[OF rest] by simp
qed

lemma add_order_has_ordered:
  "has_ordered (st\<lparr>customer_orders := add_order (customer_orders st) c v\<rparr>) c' v'
     \<longleftrightarrow> has_ordered st c' v' \<or> (c' = c \<and> v' = v)"
  by (auto simp add: has_ordered_def add_order_def split: option.splits)

lemma has_ordered_cong:
  "customer_orders sa = customer_orders sb \<Longrightarrow> has_ordered sa c v = has_ordered sb c v"
  by (simp add: has_ordered_def)

lemma load_order_has_ordered:
  assumes "load_order st r = Inr st'"
    and "getitem r ''customer_id'' = Inr c" and "int_field r ''vendor_id'' = Inr v"
  shows "has_ordered st' c' v' \<longleftrightarrow> has_ordered st c' v' \<or> (c' = c \<and> v' = v)"
proof -
  from assms(1) obtain c0 v0 where "getitem r ''customer_id'' = Inr c0"
    and "int_field r ''vendor_id'' = Inr v0"
    and co: "customer_orders st' = add_order (customer_orders st) c0 v0"
    by (rule load_order_Inr)
  then have "customer_orders st' = add_order (customer_orders st) c v" using assms(2,3) by simp
  then have "has_ordered st' c' v'
      = has_ordered (st\<lparr>customer_orders := add_order (customer_orders st) c v\<rparr>) c' v'"
    by (intro has_ordered_cong) simp
  then show ?thesis by (simp add: add_order_has_ordered)
qed

lemma load_orders_has_ordered_mono:
  "load_orders rows st = Inr st' \<Longrightarrow> has_ordered st c v \<Longrightarrow> has_ordered st' c v"
proof (induction rows arbitrary: st)
  case Nil
  then show ?case by simp
next
  case (Cons r rows)
  from Cons.prems(1) obtain s1 where s1: "load_order st r = Inr s1"
    and rest: "load_orders rows s1 = Inr st'"
    by (cases "load_order st r") simp_all
  from s1 obtain c0 v0 where "getitem r ''customer_id'' = Inr c0"
    and "int_field r ''vendor_id'' = Inr v0" by (rule load_order_Inr)
  then have "has_ordered s1 c v" using load_order_has_ordered[OF s1] Cons.prems(2) by simp
  then show ?case by (rule Cons.IH[OF rest])
qed

lemma load_data_Inr:
  assumes "load_data st0 vendor_rows order_rows = Inr st"
  obtains vs where "load_vendors vendor_rows (vendors st0) = Inr vs"
    and "load_orders order_rows (st0\<lparr>vendors := vs\<rparr>) = Inr st"
  using assms by (cases "load_vendors vendor_rows (vendors st0)") (simp_all add: load_data_def)

subsection \<open>Example: an order from an unknown vendor\<close>

lemma ghost_row_fields:
  "getitem ghost_row ''customer_id'' = Inr (Str ''C1'')" "int_field ghost_row ''vendor_id'' = Inr 9"
  by (simp_all add: ghost_row_def parse_defs)

lemma ghost_row_load: "load_order st ghost_row =
   (let st1 = st\<lparr>customer_orders := add_order (customer_orders st) (Str ''C1'') 9\<rparr>
    in case map_of (vendors st1) 9 of None \<Rightarrow> Inr st1
       | Some v \<Rightarrow> Inr (st1\<lparr>customer_preferences :=
                          bump_category (customer_preferences st1) (Str ''C1'') (category v)\<rparr>))"
  by (simp add: load_order_def ghost_row_fields)

lemma st_ghost_load: "load_data init [V1_row] ([order_row] @ ghost_row # [order_row]) = Inr st_ghost"
proof -
  have "insert (1::int) (insert 9 {1}) = {1, 9}" by auto
  then show ?thesis
    by (simp add: load_data_def V1_row_parse init_def st_ghost_def order_row_load ghost_row_load
      add_order_def bump_category_def V1_def numeral_2_eq_2)
qed

subsection \<open>Malformed rows\<close>

lemma load_vendors_append:
  "load_vendors (xs @ ys) vs = bind_err (load_vendors xs vs) (load_vendors ys)"
proof (induction xs arbitrary: vs)
  case Nil
  show ?case by simp
next
  case (Cons r xs)
  show ?case by (cases "parse_vendor r") (simp_all add: Cons.IH split: prod.splits)
qed

lemma parse_vendor_required:
  assumes "(\<exists>e. int_field r ''id'' = Inl e) \<or> (\<exists>e. float_field r ''latitude'' = Inl e)
           \<or> (\<exists>e. float_field r ''longitude'' = Inl e)"
  shows "\<exists>e. parse_vendor r = Inl e"
proof (cases "int_field r ''id''")
  case (Inl e)
  then show ?thesis by (simp add: parse_vendor_def)
next
  case i: (Inr i)
  show ?thesis
  proof (cases "float_field r ''latitude''")
    case (Inl e)
    then show ?thesis using i by (simp add: parse_vendor_def)
  next
    case la: (Inr la)
    then obtain e where "float_field r ''longitude'' = Inl e" using assms i by auto
    then show ?thesis using i la by (simp add: parse_vendor_def)
  qed
qed

lemma load_vendors_abort:
  assumes "parse_vendor r = Inl e"
  shows "\<exists>e'. load_vendors (before @ r # after) vs = Inl e'"
proof (cases "load_vendors before vs")
  case (Inl e')
  then show ?thesis by (simp add: load_vendors_append)
next
  case (Inr vs')
  then show ?thesis using assms by (simp add: load_vendors_append)
qed

lemma load_test_data_append:
  "load_test_data tc (xs @ ys) td = bind_err (load_test_data tc xs td) (load_test_data tc ys)"
proof (induction xs arbitrary: td)
  case Nil
  show ?case by simp
next
  case (Cons r xs)
  show ?case by (cases "simple_location tc r") (simp_all add: Cons.IH)
qed

lemma int_field_present:
  assumes "r k = Some c"
  shows "int_field r k \<noteq> Inl KeyError"
  using assms
  by (cases c) (simp_all add: int_field_def getitem_def int_of_cell_def split: option.splits)

lemma try_append_total:
  assumes "r ''location_number'' \<noteq> None"
  shows "\<exists>x. try_append r c la lo = Inr x"
proof -
  from assms obtain n where "r ''location_number'' = Some n" by auto
  then have "int_field r ''location_number'' \<noteq> Inl KeyError"
    using int_field_present[of r "''location_number''" n] by simp
  then show ?thesis
    by (cases "float_of_cell la"; cases "float_of_cell lo";
        cases "int_field r ''location_number''") (simp_all add: try_append_def)
qed

lemma simple_location_total:
  assumes "r ''customer_id'' \<noteq> None" and "r ''latitude'' \<noteq> None"
    and "r ''longitude'' \<noteq> None" and "r ''location_number'' \<noteq> None"
  shows "\<exists>x. simple_location tc r = Inr x"
proof -
  from assms obtain c la lo where f: "r ''customer_id'' = Some c" "r ''latitude'' = Some la"
    "r ''longitude'' = Some lo" by auto
  from try_append_total[of r c la lo, OF assms(4)] obtain x where "try_append r c la lo = Inr x" by blast
  then show ?thesis using f by (simp add: simple_location_def getitem_def)
qed

lemma load_test_data_total:
  "\<forall>r \<in> set rows. r ''customer_id'' \<noteq> None \<and> r ''latitude'' \<noteq> None
       \<and> r ''longitude'' \<noteq> None \<and> r ''location_number'' \<noteq> None
     \<Longrightarrow> \<exists>out. load_test_data tc rows td = Inr out"
proof (induction rows arbitrary: td)
  case Nil
  show ?case by simp
next
  case (Cons r rows)
  then obtain x where "simple_location tc r = Inr x"
    using simple_location_total[of r tc] by auto
  then show ?case using Cons by simp
qed

lemma simple_location_dropped:
  assumes "r ''customer_id'' = Some c" and "r ''latitude'' = Some la"
    and "r ''longitude'' = Some lo" and "r ''location_number'' = Some n"
    and "\<not> truthy la \<or> \<not> truthy lo \<or> (\<exists>e. float_of_cell la = Inl e)
         \<or> (\<exists>e. float_of_cell lo = Inl e) \<or> (\<exists>e. int_of_cell n = Inl e)"
  shows "simple_location tc r = Inr None"
proof -
  have k: "int_field r ''location_number'' = int_of_cell n"
    using assms(4) by (simp add: int_field_def getitem_def)
  have ne: "int_of_cell n \<noteq> Inl KeyError"
    using int_field_present[of r "''location_number''" n, OF assms(4)] k by simp
  have "try_append r c la lo = Inr None"
    if "(\<exists>e. float_of_cell la = Inl e) \<or> (\<exists>e. float_of_cell lo = Inl e)
         \<or> (\<exists>e. int_of_cell n = Inl e)"
    using that ne
    by (cases "float_of_cell la"; cases "float_of_cell lo"; cases "int_of_cell n")
       (simp_all add: try_append_def k)
  then show ?thesis using assms
    by (auto simp add: simple_location_def getitem_def)
qed

lemma load_test_data_dropped:
  assumes "simple_location tc r = Inr None"
  shows "load_test_data tc (before @ r # after) td = load_test_data tc (before @ after) td"
  unfolding load_test_data_append
  by (cases "load_test_data tc before td") (simp_all add: assms)

subsection \<open>Examples: malformed rows\<close>

lemma bad_vendor_row_id: "int_field bad_vendor_row ''id'' = Inl ValueError"
  by (simp add: bad_vendor_row_def parse_defs)

lemma bad_vendor_row_load: "load_data init [bad_vendor_row, V1_row] [] = Inl ValueError"
  by (simp add: load_data_def parse_vendor_def bad_vendor_row_id)

lemma blank_row_fields:
  "blank_row ''customer_id'' = Some (Str ''C1'')" "blank_row ''latitude'' = Some (Str '''')"
  "blank_row ''longitude'' = Some (Str ''0'')" "blank_row ''location_number'' = Some (Str ''3'')"
  by (simp_all add: blank_row_def)

lemma unparsable_row_fields:
  "unparsable_row ''customer_id'' = Some (Str ''C1'')"
  "unparsable_row ''latitude'' = Some (Str ''0'')"
  "unparsable_row ''longitude'' = Some (Str ''east'')"
  "unparsable_row ''location_number'' = Some (Str ''4'')"
  by (simp_all add: unparsable_row_def)

lemma east_unparsable: "float_of_cell (Str ''east'') = Inl ValueError"
  by (simp add: parse_defs)

lemma C1_row_simple: "simple_location C1_customers C1_row = Inr (Some (Str ''C1'', 1, 0, 0))"
  by (simp add: simple_location_def try_append_def C1_customers_def C1_row_def truthy_def
      parse_defs)

lemma blank_row_generate: "generate_recommendations st1 [] [blank_row, C1_row] = Inl ValueError"
  by (simp add: generate_recommendations_def parse_location_def blank_row_def parse_defs)

subsection \<open>Rounding to double\<close>

lemma rhe_of_int [simp]: "rhe (of_int m) = m"
  by (simp add: rhe_def)






lemma expo_eq:
  assumes "0 < x" and "(2::real) powr of_int k \<le> x" and "x < (2::real) powr of_int (k + 1)"
  shows "expo x = k"
proof -
  have "\<lfloor>log 2 x\<rfloor> = k"
    using floor_log_eq_powr_iff[of x 2 k] assms by (simp add: add.commute)
  then show ?thesis using assms(1) by (simp add: expo_def)
qed







lemma double_abs_exact:
  assumes "0 < x" and "(2::real) powr of_int k \<le> x" and "x < (2::real) powr of_int (k + 1)"
    and "x / (2::real) powr of_int (k - 52) = of_int m"
  shows "double_abs x = x"
proof -
  have k: "expo x = k" using assms(1,2,3) by (rule expo_eq)
  show ?thesis unfolding double_abs_def k assms(4) rhe_of_int
    using assms(4) by (simp add: field_simps)
qed





lemma double_exact:
  assumes "0 < x" and "(2::real) powr of_int k \<le> x" and "x < (2::real) powr of_int (k + 1)"
    and "x / (2::real) powr of_int (k - 52) = of_int m"
  shows "double x = x"
  using double_abs_exact[OF assms] assms(1) by (simp add: double_def)




lemma double_50: "double 50 = 50"
  by (rule double_exact[where k = 5 and m = "50 * 2 ^ 47"]) (simp_all add: powr_minus_divide)





subsection \<open>The rounded score\<close>















subsection \<open>Example: a discount that the bonus absorbs\<close>












lemma st_tiny_exact_scores:
  "calculate_vendor_score st_tiny (Str ''C1'') 0 0 1 = 52 + 1 / 2 ^ 50"
  "calculate_vendor_score st_tiny (Str ''C1'') 0 0 2 = 2 + 1 / 2 ^ 50"
  by (simp_all add: calculate_vendor_score_def st_tiny_def V_tiny_def haversine_same_point)







section \<open>The claims\<close>

text \<open>
  Claim C1 as stated fails for a pair of customer and location number that occurs in two
  rows. With six copies of the vendor of the example and the row of the example twice,
  all six vendors score 35 and reach the cutoff; the first row appends all six, the
  second row appends four of them only, and the pair ends with ten recommendations
  instead of the six the claim describes.
\<close>

theorem selection_policy_counterexample:
  "parse_location C1_row = Inr (Str ''C1'', 1, 0, 0)
   \<and> scored_vendors st6 (Str ''C1'', 1, 0, 0)
       = [(1, 35), (2, 35), (3, 35), (4, 35), (5, 35), (6, 35)]
   \<and> spec_selection 10 (scored_vendors st6 (Str ''C1'', 1, 0, 0))
       = [(1, 35), (2, 35), (3, 35), (4, 35), (5, 35), (6, 35)]
   \<and> generate_recommendations st6 [] [C1_row, C1_row]
       = Inr (map (rec_of (Str ''C1'') 1)
           [(1, 35), (2, 35), (3, 35), (4, 35), (5, 35), (6, 35),
            (1, 35), (2, 35), (3, 35), (4, 35)])
   \<and> emitted st6 (process_location st6 [] (Str ''C1'', 1, 0, 0)) (Str ''C1'', 1, 0, 0)
       = map (rec_of (Str ''C1'') 1) [(1, 35), (2, 35), (3, 35), (4, 35)]"
proof -
  have "spec_selection 10 (scored_vendors st6 (Str ''C1'', 1, 0, 0))
       = [(1, 35), (2, 35), (3, 35), (4, 35), (5, 35), (6, 35)]"
    unfolding st6_selection by simp
  then show ?thesis
    using C1_row_parse st6_scored st6_generate_twice st6_second_row by (intro conjI)
qed

text \<open>
  Claim C1, amended. For a customer-location with at least one vendor of positive score,
  the cutoff is \<open>max 10 (top_score * 0.1)\<close> with \<open>top_score\<close> the highest score of
  the group; the records appended for the customer-location are the vendors that reach
  the cutoff, in descending order of score with ties in catalog order, cut to the first
  \<open>10 - n\<close>, where \<open>n\<close> counts the recommendations the pair already has. In a run where
  no other row carries the pair, the recommendations of the pair are the first 10 of them.
\<close>

theorem selection_policy:
  assumes "scored = scored_vendors st (customer, location_num, la, lo)"
    and "scored \<noteq> []"
  shows "top_score scored \<in> snd ` set scored
       \<and> (\<forall>x \<in> set scored. snd x \<le> top_score scored)
       \<and> emitted st recs (customer, location_num, la, lo)
           = map (rec_of customer location_num)
               (take (10 - length (group_of recs customer location_num))
                  (filter (\<lambda>x. snd x \<ge> max 10 (top_score scored * 0.1))
                     (sort_key (\<lambda>x. - snd x) scored)))
       \<and> sorted_wrt (\<lambda>a b. score a \<ge> score b) (emitted st recs (customer, location_num, la, lo))
       \<and> (\<forall>s. subseq (map vendor_id (filter (\<lambda>r. score r = s)
                          (emitted st recs (customer, location_num, la, lo))))
                      (map fst (vendors st)))
       \<and> (generate_recommendations st customer_rows (before @ row # after) = Inr out
            \<and> parse_location row = Inr (customer, location_num, la, lo)
            \<and> (\<forall>r \<in> set before \<union> set after. \<forall>la' lo'.
                  parse_location r \<noteq> Inr (customer, location_num, la', lo'))
          \<longrightarrow> group_of out customer location_num
                = map (rec_of customer location_num)
                    (take 10 (filter (\<lambda>x. snd x \<ge> max 10 (top_score scored * 0.1))
                                (sort_key (\<lambda>x. - snd x) scored))))"
proof -
  note top = top_score_is_max[OF assms(2)]
  have e: "emitted st recs (customer, location_num, la, lo)
           = map (rec_of customer location_num)
               (spec_selection (10 - length (group_of recs customer location_num)) scored)"
    unfolding assms(1) by (rule emitted_eq)
  have d: "sorted_wrt (\<lambda>a b. score a \<ge> score b) (emitted st recs (customer, location_num, la, lo))"
    unfolding e by (rule selection_descending)
  have t: "subseq (map vendor_id (filter (\<lambda>r. score r = s)
                          (emitted st recs (customer, location_num, la, lo))))
                      (map fst (vendors st))" for s
    unfolding emitted_eq by (rule selection_ties)
  have w: "group_of out customer location_num
             = map (rec_of customer location_num) (spec_selection 10 scored)"
    if "generate_recommendations st customer_rows (before @ row # after) = Inr out"
      and "parse_location row = Inr (customer, location_num, la, lo)"
      and "\<forall>r \<in> set before \<union> set after. \<forall>la' lo'.
                  parse_location r \<noteq> Inr (customer, location_num, la', lo')"
    unfolding assms(1)
    using generate_recommendations_Inr[OF that(1)] that(2,3) by (rule locations_loop_unique_pair)
  show ?thesis
    using top e d t w unfolding spec_selection_def spec_min_score_def by blast
qed

text \<open>Claim C1, amended, at the end-to-end example followed by a row of another pair.\<close>

theorem selection_policy_witness:
  "[(1, 35)] = scored_vendors st1 (Str ''C1'', 1, 0, 0)
   \<and> generate_recommendations st1 [] ([] @ C1_row # [far_row]) =
       Inr [\<lparr>customer_id = Str ''C1'', location_number = 1, vendor_id = 1, score = 35\<rparr>]
   \<and> parse_location C1_row = Inr (Str ''C1'', 1, 0, 0)
   \<and> parse_location far_row = Inr (Str ''C1'', 2, 0, 180)
   \<and> emitted st1 [] (Str ''C1'', 1, 0, 0) = [rec_of (Str ''C1'') 1 (1, 35)]
   \<and> group_of [\<lparr>customer_id = Str ''C1'', location_number = 1, vendor_id = 1, score = 35\<rparr>]
        (Str ''C1'') 1 = [rec_of (Str ''C1'') 1 (1, 35)]"
proof -
  have a: "[(1, 35)] = scored_vendors st1 (Str ''C1'', 1, 0, 0)" by (simp add: st1_scored)
  have b: "[(1::int, 35::real)] \<noteq> []" by simp
  have g: "generate_recommendations st1 [] ([] @ C1_row # [far_row]) =
       Inr [\<lparr>customer_id = Str ''C1'', location_number = 1, vendor_id = 1, score = 35\<rparr>]"
    using st1_generate_far by simp
  have u: "\<forall>r \<in> set [] \<union> set [far_row]. \<forall>la' lo'.
                  parse_location r \<noteq> Inr (Str ''C1'', 1, la', lo')"
    by (simp add: far_row_parse)
  from selection_policy[OF a b, of "[]" "[]" "[]" C1_row "[far_row]"] g C1_row_parse u
  have "emitted st1 [] (Str ''C1'', 1, 0, 0)
           = map (rec_of (Str ''C1'') 1)
               (take (10 - length (group_of [] (Str ''C1'') 1))
                  (filter (\<lambda>x. snd x \<ge> max 10 (top_score [(1::int, 35::real)] * 0.1))
                     (sort_key (\<lambda>x. - snd x) [(1, 35)])))"
    and "group_of [\<lparr>customer_id = Str ''C1'', location_number = 1, vendor_id = 1, score = 35\<rparr>]
            (Str ''C1'') 1
           = map (rec_of (Str ''C1'') 1)
               (take 10 (filter (\<lambda>x. snd x \<ge> max 10 (top_score [(1::int, 35::real)] * 0.1))
                  (sort_key (\<lambda>x. - snd x) [(1, 35)])))"
    by blast+
  then have "emitted st1 [] (Str ''C1'', 1, 0, 0) = [rec_of (Str ''C1'') 1 (1, 35)]"
    and "group_of [\<lparr>customer_id = Str ''C1'', location_number = 1, vendor_id = 1, score = 35\<rparr>]
            (Str ''C1'') 1 = [rec_of (Str ''C1'') 1 (1, 35)]"
    by (simp_all add: top_score_def group_of_def)
  then show ?thesis using a g C1_row_parse far_row_parse by (intro conjI)
qed

text \<open>
  Claim C2. For a catalog vendor within its serving distance of the customer's location
  the score is the closed formula of the specification: the distance band plus three
  times the rating, minus twice the delivery charge, plus half the discount, all times
  0.1 when the vendor is closed, plus 50 for a previous order and twice the category
  count, clamped at 0. On the end-to-end example of the specification (loaded from its
  rows) the score of vendor 1 is 35 and the vendor is emitted.
\<close>

theorem score_formula:
  "(map_of (vendors st) vid = Some v
      \<and> haversine_distance la lo (lat v) (lon v) \<le> serving_distance v \<longrightarrow>
    calculate_vendor_score st customer la lo vid =
      max 0 ((spec_band (haversine_distance la lo (lat v) (lon v))
                + 3 * rating v - 2 * delivery_charge v + 0.5 * discount v)
               * (if is_open v = 0 then 0.1 else 1)
             + (if has_ordered st customer vid then 50 else 0)
             + 2 * real (category_count st customer (category v))))
   \<and> load_data init [V1_row] [] = Inr st1
   \<and> parse_location C1_row = Inr (Str ''C1'', 1, 0, 0)
   \<and> calculate_vendor_score st1 (Str ''C1'') 0 0 1 = 35
   \<and> generate_recommendations st1 [] [C1_row] =
       Inr [\<lparr>customer_id = Str ''C1'', location_number = 1, vendor_id = 1, score = 35\<rparr>]"
proof -
  have "calculate_vendor_score st customer la lo vid =
      max 0 ((spec_band (haversine_distance la lo (lat v) (lon v))
                + 3 * rating v - 2 * delivery_charge v + 0.5 * discount v)
               * (if is_open v = 0 then 0.1 else 1)
             + (if has_ordered st customer vid then 50 else 0)
             + 2 * real (category_count st customer (category v)))"
    if "map_of (vendors st) vid = Some v"
      and "haversine_distance la lo (lat v) (lon v) \<le> serving_distance v"
    using score_in_range[OF that]
    by (simp only: spec_score_def unclamped_score_def pre_multiplier_def)
  then show ?thesis
    using st1_load C1_row_parse st1_score st1_generate by blast
qed

text \<open>
  Claim C2, at a customer who has ordered twice from vendor 1: the score is
  \<open>35 + 50 + 2 * 2\<close>.
\<close>

theorem score_formula_witness:
  "map_of (vendors st_hist) 1 = Some V1
   \<and> haversine_distance 0 0 (lat V1) (lon V1) \<le> serving_distance V1
   \<and> has_ordered st_hist (Str ''C1'') 1
   \<and> category_count st_hist (Str ''C1'') (category V1) = 2
   \<and> calculate_vendor_score st_hist (Str ''C1'') 0 0 1 = 89"
proof -
  have a: "map_of (vendors st_hist) 1 = Some V1" by (simp add: st_hist_def)
  have b: "haversine_distance 0 0 (lat V1) (lon V1) \<le> serving_distance V1"
    by (simp add: V1_def haversine_same_point)
  have c: "has_ordered st_hist (Str ''C1'') 1" by (simp add: has_ordered_def st_hist_def)
  have d: "category_count st_hist (Str ''C1'') (category V1) = 2"
    by (simp add: category_count_def st_hist_def V1_def)
  from score_formula[of st_hist 1 V1 0 0 "Str ''C1''"] a b
  have "calculate_vendor_score st_hist (Str ''C1'') 0 0 1 =
      max 0 ((spec_band (haversine_distance 0 0 (lat V1) (lon V1))
                + 3 * rating V1 - 2 * delivery_charge V1 + 0.5 * discount V1)
               * (if is_open V1 = 0 then 0.1 else 1)
             + (if has_ordered st_hist (Str ''C1'') 1 then 50 else 0)
             + 2 * real (category_count st_hist (Str ''C1'') (category V1)))"
    by blast
  then have "calculate_vendor_score st_hist (Str ''C1'') 0 0 1 = 89"
    unfolding d using c by (simp add: V1_def haversine_same_point spec_band_def)
  then show ?thesis using a b c d by blast
qed

text \<open>
  Claim C3. If a catalog vendor lies farther from a customer-location than its serving
  distance, no record appended for that customer-location names the vendor, whatever was
  recommended before; and in a whole run, when every row of the pair carries these
  coordinates, no recommendation of the output for the pair names the vendor.
\<close>

theorem serving_distance_filter:
  assumes "map_of (vendors st) vid = Some v"
    and "haversine_distance la lo (lat v) (lon v) > serving_distance v"
  shows "vid \<notin> vendor_id ` set (emitted st recs (customer, location_num, la, lo))
       \<and> (generate_recommendations st customer_rows location_rows = Inr out
            \<and> (\<forall>row \<in> set location_rows. \<forall>la' lo'.
                  parse_location row = Inr (customer, location_num, la', lo')
                    \<longrightarrow> la' = la \<and> lo' = lo)
          \<longrightarrow> (\<forall>r \<in> set out. customer_id r = customer \<and> location_number r = location_num
                  \<longrightarrow> vendor_id r \<noteq> vid))"
proof -
  have zero: "calculate_vendor_score st customer la lo vid = 0"
    using assms by (rule score_out_of_range)
  have not_scored: "(vid, s) \<notin> set (scored_vendors st (customer, location_num, la, lo))" for s
    using zero by (simp add: scored_vendors_set)
  have one: "vid \<notin> vendor_id ` set (emitted st recs (customer, location_num, la, lo))"
  proof
    assume "vid \<in> vendor_id ` set (emitted st recs (customer, location_num, la, lo))"
    then obtain r where "r \<in> set (emitted st recs (customer, location_num, la, lo))"
      and "vendor_id r = vid" by auto
    then show False using emitted_key not_scored by blast
  qed
  have run: "vendor_id r \<noteq> vid"
    if gen: "generate_recommendations st customer_rows location_rows = Inr out"
      and same: "\<forall>row \<in> set location_rows. \<forall>la' lo'.
                  parse_location row = Inr (customer, location_num, la', lo')
                    \<longrightarrow> la' = la \<and> lo' = lo"
      and r: "r \<in> set out" "customer_id r = customer" "location_number r = location_num"
    for r
  proof
    assume v: "vendor_id r = vid"
    from locations_loop_provenance[OF generate_recommendations_Inr[OF gen] r(1)]
    obtain row la' lo' where "row \<in> set location_rows"
      and "parse_location row = Inr (customer_id r, location_number r, la', lo')"
      and "(vendor_id r, score r)
            \<in> set (scored_vendors st (customer_id r, location_number r, la', lo'))"
      by auto
    then show False using same not_scored r(2,3) v by fastforce
  qed
  show ?thesis using one run by blast
qed

text \<open>
  Claim C3, at the vendor of the example and a customer-location on the other side of
  the globe: the distance is \<open>6371 * pi\<close> km and the serving distance is 100 km.
\<close>

theorem serving_distance_filter_witness:
  "map_of (vendors st1) 1 = Some V1
   \<and> haversine_distance 0 180 (lat V1) (lon V1) > serving_distance V1
   \<and> parse_location C1_row = Inr (Str ''C1'', 1, 0, 0)
   \<and> parse_location far_row = Inr (Str ''C1'', 2, 0, 180)
   \<and> generate_recommendations st1 [] [C1_row, far_row] =
       Inr [\<lparr>customer_id = Str ''C1'', location_number = 1, vendor_id = 1, score = 35\<rparr>]
   \<and> 1 \<notin> vendor_id ` set (emitted st1 [] (Str ''C1'', 2, 0, 180))
   \<and> 1 \<notin> vendor_id ` set (group_of
         [\<lparr>customer_id = Str ''C1'', location_number = 1, vendor_id = 1, score = 35\<rparr>]
         (Str ''C1'') 2)"
proof -
  have a: "map_of (vendors st1) 1 = Some V1" by (simp add: st1_vendors)
  have "(100::real) < 6371 * pi" using pi_ge_two by simp
  then have b: "haversine_distance 0 180 (lat V1) (lon V1) > serving_distance V1"
    by (simp add: V1_def haversine_antipode)
  have c: "\<forall>row \<in> set [C1_row, far_row]. \<forall>la' lo'.
         parse_location row = Inr (Str ''C1'', 2, la', lo') \<longrightarrow> la' = 0 \<and> lo' = 180"
    by (simp add: C1_row_parse far_row_parse)
  from serving_distance_filter[OF a b, of "[]" "Str ''C1''" 2 "[]" "[C1_row, far_row]"]
    st1_generate_far c
  have "1 \<notin> vendor_id ` set (emitted st1 [] (Str ''C1'', 2, 0, 180))"
    and "\<forall>r \<in> set [\<lparr>customer_id = Str ''C1'', location_number = 1, vendor_id = 1, score = 35\<rparr>].
         customer_id r = Str ''C1'' \<and> location_number r = 2 \<longrightarrow> vendor_id r \<noteq> 1"
    by blast+
  then show ?thesis using a b st1_generate_far C1_row_parse far_row_parse
    by (simp add: group_of_def)
qed

text \<open>
  Claim C4 as stated fails below the floor of the cutoff: a closed vendor at distance 0
  with rating 0 scores 2, which is above 0, and nothing is recommended.
\<close>

theorem recommendation_set_counterexample:
  "parse_location C1_row = Inr (Str ''C1'', 1, 0, 0)
   \<and> 1 \<in> fst ` set (vendors st_closed)
   \<and> calculate_vendor_score st_closed (Str ''C1'') 0 0 1 = 2
   \<and> generate_recommendations st_closed [] [C1_row] = Inr []"
  by (simp add: C1_row_parse st_closed_score st_closed_generate) (simp add: st_closed_def)

text \<open>
  Claim C4, amended. In the output of a run, a pair of customer and location number has
  at most 10 recommendations; it has at least one whenever some row of the pair has a
  catalog vendor scoring at least 10, and none when on every row of the pair every
  catalog vendor scores less than 10.
\<close>

theorem recommendation_set_bounds:
  assumes "generate_recommendations st customer_rows location_rows = Inr out"
  shows "length (group_of out customer location_num) \<le> 10
       \<and> (\<forall>row \<in> set location_rows. \<forall>la lo.
            parse_location row = Inr (customer, location_num, la, lo)
            \<and> (\<exists>vid \<in> fst ` set (vendors st). calculate_vendor_score st customer la lo vid \<ge> 10)
            \<longrightarrow> group_of out customer location_num \<noteq> [])
       \<and> ((\<forall>row \<in> set location_rows. \<forall>la lo.
             parse_location row = Inr (customer, location_num, la, lo)
             \<longrightarrow> (\<forall>vid \<in> fst ` set (vendors st). calculate_vendor_score st customer la lo vid < 10))
            \<longrightarrow> group_of out customer location_num = [])"
proof -
  note loop = generate_recommendations_Inr[OF assms]
  have cap: "length (group_of out customer location_num) \<le> 10"
    using loop by (rule locations_loop_cap) (simp add: group_of_def)
  have ne: "group_of out customer location_num \<noteq> []"
    if "row \<in> set location_rows"
      and "parse_location row = Inr (customer, location_num, la, lo)"
      and "vid \<in> fst ` set (vendors st)"
      and "calculate_vendor_score st customer la lo vid \<ge> 10"
    for row la lo vid
  proof -
    let ?x = "(vid, calculate_vendor_score st customer la lo vid)"
    have "?x \<in> set (scored_vendors st (customer, location_num, la, lo))"
      using that(3,4) by (simp add: scored_vendors_set)
    moreover have "snd ?x \<ge> 10" using that(4) by simp
    ultimately show ?thesis by (rule locations_loop_nonempty[OF loop that(1,2)])
  qed
  have emp: "group_of out customer location_num = []"
    if low: "\<forall>row \<in> set location_rows. \<forall>la lo.
             parse_location row = Inr (customer, location_num, la, lo)
             \<longrightarrow> (\<forall>vid \<in> fst ` set (vendors st). calculate_vendor_score st customer la lo vid < 10)"
  proof (rule ccontr)
    assume "group_of out customer location_num \<noteq> []"
    then obtain r where r: "r \<in> set out" "customer_id r = customer"
        "location_number r = location_num"
      unfolding group_of_def by (metis (mono_tags, lifting) filter_False)
    from locations_loop_provenance[OF loop r(1)]
    obtain row la lo where row: "row \<in> set location_rows"
      and p: "parse_location row = Inr (customer_id r, location_number r, la, lo)"
      and sc: "(vendor_id r, score r)
            \<in> set (scored_vendors st (customer_id r, location_number r, la, lo))"
      and ten: "score r \<ge> 10"
      by auto
    from sc have "vendor_id r \<in> fst ` set (vendors st)"
      and "score r = calculate_vendor_score st (customer_id r) la lo (vendor_id r)"
      by (simp_all add: scored_vendors_set)
    then show False using low row p ten r(2,3) by fastforce
  qed
  show ?thesis using cap ne emp by blast
qed

text \<open>Claim C4, amended, at the end-to-end example.\<close>

theorem recommendation_set_bounds_witness:
  "generate_recommendations st1 [] [C1_row] =
       Inr [\<lparr>customer_id = Str ''C1'', location_number = 1, vendor_id = 1, score = 35\<rparr>]
   \<and> C1_row \<in> set [C1_row] \<and> parse_location C1_row = Inr (Str ''C1'', 1, 0, 0)
   \<and> 1 \<in> fst ` set (vendors st1) \<and> calculate_vendor_score st1 (Str ''C1'') 0 0 1 \<ge> 10
   \<and> length (group_of [\<lparr>customer_id = Str ''C1'', location_number = 1, vendor_id = 1, score = 35\<rparr>]
        (Str ''C1'') 1) \<le> 10
   \<and> group_of [\<lparr>customer_id = Str ''C1'', location_number = 1, vendor_id = 1, score = 35\<rparr>]
        (Str ''C1'') 1 \<noteq> []"
proof -
  have a: "1 \<in> fst ` set (vendors st1)" by (simp add: st1_vendors)
  have b: "calculate_vendor_score st1 (Str ''C1'') 0 0 1 \<ge> 10" by (simp add: st1_score)
  from recommendation_set_bounds[OF st1_generate, of "Str ''C1''" 1] C1_row_parse a b
  show ?thesis using st1_generate by fastforce
qed







text \<open>
  Claim C7. When \<^verbatim>\<open>load_data\<close> succeeds and an order row names a vendor id that is not
  in the catalog, the customer has ordered from that vendor in the resulting state, and
  the category counters are those of the same load without the row: the row adds to no
  counter of any customer.
\<close>

theorem unknown_vendor_order:
  assumes "load_data st0 vendor_rows (before @ r # after) = Inr st"
    and "getitem r ''customer_id'' = Inr customer"
    and "int_field r ''vendor_id'' = Inr vid"
    and "vid \<notin> fst ` set (vendors st)"
  shows "has_ordered st customer vid
       \<and> (\<exists>st'. load_data st0 vendor_rows (before @ after) = Inr st'
                 \<and> vendors st' = vendors st
                 \<and> customer_preferences st' = customer_preferences st
                 \<and> (\<forall>c cat. category_count st' c cat = category_count st c cat))"
proof -
  from assms(1) obtain vs where vs: "load_vendors vendor_rows (vendors st0) = Inr vs"
    and all: "load_orders (before @ r # after) (st0\<lparr>vendors := vs\<rparr>) = Inr st"
    by (rule load_data_Inr)
  let ?s0 = "st0\<lparr>vendors := vs\<rparr>"
  from all obtain s1 where s1: "load_orders before ?s0 = Inr s1"
    and tl: "load_orders (r # after) s1 = Inr st"
    unfolding load_orders_append by (cases "load_orders before ?s0") simp_all
  from tl obtain s2 where s2: "load_order s1 r = Inr s2" and rest: "load_orders after s2 = Inr st"
    by (cases "load_order s1 r") simp_all
  from s2 obtain c0 v0 where c0: "getitem r ''customer_id'' = Inr c0"
    and v0: "int_field r ''vendor_id'' = Inr v0"
    and v2: "vendors s2 = vendors s1"
    and p2: "customer_preferences s2 =
           (case map_of (vendors s1) v0 of
              None \<Rightarrow> customer_preferences s1
            | Some w \<Rightarrow> bump_category (customer_preferences s1) c0 (category w))"
    by (rule load_order_Inr)
  have v0': "v0 = vid" using v0 assms(3) by simp
  have "vendors st = vendors s2" using rest by (rule load_orders_vendors)
  then have "vid \<notin> fst ` set (vendors s1)" using assms(4) v2 by simp
  then have "map_of (vendors s1) vid = None" by (simp add: map_of_eq_None_iff)
  then have p2': "customer_preferences s2 = customer_preferences s1" using p2 v0' by simp
  have "has_ordered s2 customer vid"
    using load_order_has_ordered[OF s2 assms(2,3)] by simp
  then have one: "has_ordered st customer vid" by (rule load_orders_has_ordered_mono[OF rest])
  from load_orders_agree[OF rest v2[symmetric] p2'[symmetric]] obtain b
    where b: "load_orders after s1 = Inr b" "vendors b = vendors st"
      "customer_preferences b = customer_preferences st" by blast
  have "load_data st0 vendor_rows (before @ after) = Inr b"
    by (simp add: load_data_def vs load_orders_append s1 b(1))
  moreover have "category_count b c cat = category_count st c cat" for c cat
    by (simp add: category_count_def b(3))
  ultimately show ?thesis using one b(2,3) by blast
qed

text \<open>
  Claim C7, at the catalog of the example and three orders of customer C1: two from
  vendor 1 and, between them, one from the unknown vendor 9.
\<close>

theorem unknown_vendor_order_witness:
  "load_data init [V1_row] ([order_row] @ ghost_row # [order_row]) = Inr st_ghost
   \<and> getitem ghost_row ''customer_id'' = Inr (Str ''C1'')
   \<and> int_field ghost_row ''vendor_id'' = Inr 9
   \<and> 9 \<notin> fst ` set (vendors st_ghost)
   \<and> has_ordered st_ghost (Str ''C1'') 9
   \<and> load_data init [V1_row] ([order_row] @ [order_row]) = Inr st_hist
   \<and> customer_preferences st_hist = customer_preferences st_ghost"
proof -
  have n: "9 \<notin> fst ` set (vendors st_ghost)" by (simp add: st_ghost_def)
  have h: "load_data init [V1_row] ([order_row] @ [order_row]) = Inr st_hist"
    using st_hist_load by simp
  from unknown_vendor_order[OF st_ghost_load ghost_row_fields n]
  have "has_ordered st_ghost (Str ''C1'') 9"
    and "\<exists>st'. load_data init [V1_row] ([order_row] @ [order_row]) = Inr st'
                 \<and> customer_preferences st' = customer_preferences st_ghost"
    by blast+
  then show ?thesis using st_ghost_load ghost_row_fields n h by auto
qed

text \<open>
  Claim C8 as stated fails for vendor rows: \<^verbatim>\<open>load_data\<close> has no guard around
  \<^verbatim>\<open>int(row['id'])\<close>, so a vendor row with a blank id ends the load with
  \<^verbatim>\<open>ValueError\<close>, and the well-formed row after it is never loaded.
\<close>

theorem row_leniency_counterexample:
  "int_field bad_vendor_row ''id'' = Inl ValueError
   \<and> load_data init [bad_vendor_row, V1_row] [] = Inl ValueError
   \<and> load_data init [V1_row] [] = Inr st1"
  using bad_vendor_row_id bad_vendor_row_load st1_load by (intro conjI)

text \<open>
  Claim C8, amended. The test-location loop of \<^verbatim>\<open>simple_recommender.py\<close> never aborts
  on a file that has the four columns, and a row whose latitude or longitude is blank or
  unparsable, or whose location number is unparsable, is dropped: the load gives what it
  gives without the row. \<^verbatim>\<open>load_data\<close> has no such guard: a vendor row whose id,
  latitude or longitude is missing or unparsable aborts the load.
\<close>

theorem row_leniency:
  "((\<forall>r \<in> set rows. r ''customer_id'' \<noteq> None \<and> r ''latitude'' \<noteq> None
         \<and> r ''longitude'' \<noteq> None \<and> r ''location_number'' \<noteq> None)
      \<longrightarrow> (\<exists>out. load_test_data test_customers rows test_data = Inr out))
   \<and> (r ''customer_id'' = Some c \<and> r ''latitude'' = Some la
        \<and> r ''longitude'' = Some lo \<and> r ''location_number'' = Some n
        \<and> (\<not> truthy la \<or> \<not> truthy lo \<or> (\<exists>e. float_of_cell la = Inl e)
            \<or> (\<exists>e. float_of_cell lo = Inl e) \<or> (\<exists>e. int_of_cell n = Inl e))
      \<longrightarrow> load_test_data test_customers (before @ r # after) test_data
            = load_test_data test_customers (before @ after) test_data)
   \<and> ((\<exists>e. int_field v ''id'' = Inl e) \<or> (\<exists>e. float_field v ''latitude'' = Inl e)
        \<or> (\<exists>e. float_field v ''longitude'' = Inl e)
      \<longrightarrow> (\<exists>e. load_data st (vendors_before @ v # vendors_after) order_rows = Inl e))"
proof -
  have a: "\<exists>out. load_test_data test_customers rows test_data = Inr out"
    if "\<forall>r \<in> set rows. r ''customer_id'' \<noteq> None \<and> r ''latitude'' \<noteq> None
         \<and> r ''longitude'' \<noteq> None \<and> r ''location_number'' \<noteq> None"
    using that by (rule load_test_data_total)
  have b: "load_test_data test_customers (before @ r # after) test_data
            = load_test_data test_customers (before @ after) test_data"
    if "r ''customer_id'' = Some c" "r ''latitude'' = Some la"
        "r ''longitude'' = Some lo" "r ''location_number'' = Some n"
        "\<not> truthy la \<or> \<not> truthy lo \<or> (\<exists>e. float_of_cell la = Inl e)
            \<or> (\<exists>e. float_of_cell lo = Inl e) \<or> (\<exists>e. int_of_cell n = Inl e)"
    using simple_location_dropped[OF that] by (rule load_test_data_dropped)
  have c: "\<exists>e. load_data st (vendors_before @ v # vendors_after) order_rows = Inl e"
    if "(\<exists>e. int_field v ''id'' = Inl e) \<or> (\<exists>e. float_field v ''latitude'' = Inl e)
        \<or> (\<exists>e. float_field v ''longitude'' = Inl e)"
  proof -
    from parse_vendor_required[OF that] obtain e where "parse_vendor v = Inl e" by blast
    from load_vendors_abort[OF this] obtain e'
      where "load_vendors (vendors_before @ v # vendors_after) (vendors st) = Inl e'" by blast
    then show ?thesis by (simp add: load_data_def)
  qed
  show ?thesis using a b c by blast
qed

text \<open>
  Claim C8, amended, at a test-location file with a blank latitude, an unparsable
  longitude and the row of the example, and at a vendor file whose first row has a blank
  id.
\<close>

theorem row_leniency_witness:
  "blank_row ''latitude'' = Some (Str '''') \<and> \<not> truthy (Str '''')
   \<and> unparsable_row ''longitude'' = Some (Str ''east'')
   \<and> float_of_cell (Str ''east'') = Inl ValueError
   \<and> load_test_data C1_customers ([] @ blank_row # [unparsable_row, C1_row]) []
       = Inr [(Str ''C1'', 1, 0, 0)]
   \<and> int_field bad_vendor_row ''id'' = Inl ValueError
   \<and> (\<exists>e. load_data init ([] @ bad_vendor_row # [V1_row]) [] = Inl e)
   \<and> load_data init ([] @ bad_vendor_row # [V1_row]) [] = Inl ValueError"
proof -
  have t: "\<not> truthy (Str '''')" by (simp add: truthy_def)
  have cols: "\<forall>r \<in> set [blank_row, unparsable_row, C1_row].
      r ''customer_id'' \<noteq> None \<and> r ''latitude'' \<noteq> None
        \<and> r ''longitude'' \<noteq> None \<and> r ''location_number'' \<noteq> None"
    by (simp add: blank_row_fields unparsable_row_fields) (simp add: C1_row_def)
  have "\<exists>out. load_test_data C1_customers [blank_row, unparsable_row, C1_row] [] = Inr out"
    using row_leniency[where rows = "[blank_row, unparsable_row, C1_row]"
        and test_customers = C1_customers and test_data = "[]"] cols
    by blast
  have "load_test_data C1_customers ([] @ blank_row # [unparsable_row, C1_row]) []
      = load_test_data C1_customers ([] @ [unparsable_row, C1_row]) []"
    using row_leniency[where r = blank_row and c = "Str ''C1''" and la = "Str ''''"
        and lo = "Str ''0''" and n = "Str ''3''" and test_customers = C1_customers
        and before = "[]" and after = "[unparsable_row, C1_row]" and test_data = "[]"]
      blank_row_fields t
    by blast
  also have "\<dots> = load_test_data C1_customers ([] @ [C1_row]) []"
    using row_leniency[where r = unparsable_row and c = "Str ''C1''" and la = "Str ''0''"
        and lo = "Str ''east''" and n = "Str ''4''" and test_customers = C1_customers
        and before = "[]" and after = "[C1_row]" and test_data = "[]"]
      unparsable_row_fields east_unparsable
    by blast
  also have "\<dots> = Inr [(Str ''C1'', 1, 0, 0)]" by (simp add: C1_row_simple)
  finally have l: "load_test_data C1_customers ([] @ blank_row # [unparsable_row, C1_row]) []
       = Inr [(Str ''C1'', 1, 0, 0)]" .
  have a: "\<exists>e. load_data init ([] @ bad_vendor_row # [V1_row]) [] = Inl e"
    using row_leniency[where v = bad_vendor_row and st = init and vendors_before = "[]"
        and vendors_after = "[V1_row]" and order_rows = "[]"] bad_vendor_row_id
    by blast
  have "load_data init ([] @ bad_vendor_row # [V1_row]) [] = Inl ValueError"
    using bad_vendor_row_load by simp
  then show ?thesis
    using l t blank_row_fields(2) unparsable_row_fields(3) east_unparsable bad_vendor_row_id a
    by (intro conjI)
qed

text \<open>
  Claim C9. For a vendor id that is not a key of the vendor catalog,
  \<^verbatim>\<open>calculate_vendor_score\<close> returns 0, whatever the customer and the location.
\<close>

theorem unknown_vendor_scores_zero:
  "vid \<notin> fst ` set (vendors st) \<Longrightarrow> calculate_vendor_score st customer la lo vid = 0"
  by (rule score_unknown) (simp add: map_of_eq_None_iff)

text \<open>Claim C9, at the catalog of the example and the unknown id 2.\<close>

theorem unknown_vendor_scores_zero_witness:
  "(2::int) \<notin> fst ` set (vendors st1) \<and> calculate_vendor_score st1 (Str ''C1'') 0 0 2 = 0"
proof -
  have h: "(2::int) \<notin> fst ` set (vendors st1)" by (simp add: st1_vendors)
  show ?thesis using h unknown_vendor_scores_zero[OF h] by simp
qed

text \<open>
  Claim C10. In the output of a run no pair of customer and location number has more than
  10 recommendations, however many rows carry the pair: what a row appends and what the
  pair had before stay within 10 together. A pair that occurs in two rows can get the
  same recommendation twice, as the example with its row repeated shows.
\<close>

theorem group_cap_accumulated:
  "(generate_recommendations st customer_rows location_rows = Inr out
      \<longrightarrow> length (group_of out customer location_num) \<le> 10)
   \<and> length (group_of recs customer location_num)
       + length (emitted st recs (customer, location_num, la, lo))
       \<le> max 10 (length (group_of recs customer location_num))
   \<and> generate_recommendations st1 [] [C1_row, C1_row] =
       Inr [\<lparr>customer_id = Str ''C1'', location_number = 1, vendor_id = 1, score = 35\<rparr>,
            \<lparr>customer_id = Str ''C1'', location_number = 1, vendor_id = 1, score = 35\<rparr>]"
proof -
  have "length (group_of out customer location_num) \<le> 10"
    if "generate_recommendations st customer_rows location_rows = Inr out"
    using generate_recommendations_Inr[OF that]
    by (rule locations_loop_cap) (simp add: group_of_def)
  moreover have "length (group_of recs customer location_num)
       + length (emitted st recs (customer, location_num, la, lo))
       \<le> max 10 (length (group_of recs customer location_num))"
    using emitted_length[of st recs customer location_num la lo] by simp
  ultimately show ?thesis using st1_generate_twice by blast
qed

text \<open>Claim C10, at the example with its row repeated.\<close>

theorem group_cap_accumulated_witness:
  "generate_recommendations st1 [] [C1_row, C1_row] =
       Inr [\<lparr>customer_id = Str ''C1'', location_number = 1, vendor_id = 1, score = 35\<rparr>,
            \<lparr>customer_id = Str ''C1'', location_number = 1, vendor_id = 1, score = 35\<rparr>]
   \<and> length (group_of [\<lparr>customer_id = Str ''C1'', location_number = 1, vendor_id = 1, score = 35\<rparr>,
            \<lparr>customer_id = Str ''C1'', location_number = 1, vendor_id = 1, score = 35\<rparr>]
         (Str ''C1'') 1) \<le> 10"
  using group_cap_accumulated[of st1 "[]" "[C1_row, C1_row]" _ "Str ''C1''" 1 "[]" 0 0] by blast

end
